theory Spec2Isabelle
  imports Complex_Main "HOL-Library.Word" "HOL-Library.Monad_Syntax" "HOL-Library.Signed_Division"
begin

section \<open>The Koshi chime frame loop of M5Core2-KoshiChime.ino\<close>

text \<open>
  The sketch keeps all of its state in global variables and advances it once per call of
  \<^verbatim>\<open>loop()\<close>. The embedding below passes that state explicitly.

  Conventions of the embedding:
  \<^item> \<^verbatim>\<open>float\<close> is modelled by \<^typ>\<open>real\<close>: arithmetic is exact, rounding is not
    modelled, and there are no infinities or NaNs. A float division whose divisor is zero
    (which yields an infinity or a NaN on the device) and a float-to-integer conversion
    whose value does not fit the target type (undefined in C++) are the two places where
    the device leaves what \<^typ>\<open>real\<close> can express; both are modelled as \<open>None\<close>.
  \<^item> \<^verbatim>\<open>uint8_t\<close> is \<open>8 word\<close>; \<^verbatim>\<open>unsigned long\<close> (32 bits on the ESP32) is
    \<open>32 word\<close>, so the subtraction of two \<^verbatim>\<open>millis()\<close> readings wraps around.
  \<^item> The fixed-size global arrays are lists; the sketch only indexes them with
    \<open>0..7\<close>.
  \<^item> Calls into the display and the synthesizer are not state of the sketch. The
    \<^verbatim>\<open>setNoteOn\<close> calls of one tick are returned as a list, in call order; the screen
    coordinates \<^verbatim>\<open>rod_px\<close>, \<^verbatim>\<open>rod_py\<close>, \<^verbatim>\<open>prev_ball_sx\<close>, \<^verbatim>\<open>prev_ball_sy\<close>
    are only read by drawing calls and are left out.
\<close>

subsection \<open>Types and constants\<close>

type_synonym u8 = "8 word"
type_synonym u32 = "32 word"

definition TUBE_R :: int where "TUBE_R = 65"
definition ROD_ORBIT :: int where "ROD_ORBIT = 55"
definition BALL_R :: int where "BALL_R = 10"
definition HIT_DIST :: real where "HIT_DIST = 24"
definition ROD_DEBOUNCE :: int where "ROD_DEBOUNCE = 80"

definition GRAVITY_SCALE :: real where "GRAVITY_SCALE = 120"
definition FRICTION :: real where "FRICTION = 97 / 100"
definition MAX_SPEED :: real where "MAX_SPEED = 20"
definition ROD_BOUNCE :: real where "ROD_BOUNCE = 2"

text \<open>
  The global variables of the sketch. \<open>chime_notes\<close> is the (non-const) table
  \<^verbatim>\<open>uint8_t chime_notes[4][8]\<close>; its initial contents are the \<^verbatim>\<open>NOTE_*\<close> macros of the
  synthesizer library, which is not part of the repository, so the table is a parameter
  of \<open>setup_init\<close>. \<open>current_chime\<close> holds the integer value of the enum \<^verbatim>\<open>ChimeType\<close>
  (\<^verbatim>\<open>TERRA = 0\<close>, \<^verbatim>\<open>AQUA = 1\<close>, \<^verbatim>\<open>ARIA = 2\<close>, \<^verbatim>\<open>IGNIS = 3\<close>).
\<close>

record state =
  chime_notes :: "u8 list list"
  current_chime :: int
  cal_ax :: real
  cal_ay :: real
  ball_x :: real
  ball_y :: real
  ball_vx :: real
  ball_vy :: real
  rod_last_hit :: "u32 list"
  rod_glow :: "u8 list"
  rod_fx :: "real list"
  rod_fy :: "real list"

text \<open>
  What one call of \<^verbatim>\<open>loop()\<close> reads from the outside: the three button edges, the
  accelerometer sample taken by the calibration branch (read only when button B was
  released), the accelerometer sample of step 1, and \<^verbatim>\<open>millis()\<close>.
\<close>

record tick_input =
  btnA :: bool
  btnB :: bool
  btnC :: bool
  cal_sample :: "real \<times> real"
  accel :: "real \<times> real"
  now :: u32

text \<open>
  One call \<^verbatim>\<open>synth.setNoteOn(0, note, velocity)\<close>. The field \<open>rod\<close> is the value of the
  loop index \<^verbatim>\<open>i\<close> at the call; it is not sent to the synthesizer and only serves to say
  which rod a strike belongs to.
\<close>

record strike =
  rod :: nat
  pitch :: u8
  velocity :: u8

subsection \<open>Float operations that can leave the reals\<close>

definition fdiv :: "real \<Rightarrow> real \<Rightarrow> real option" where
  "fdiv a b = (if b = 0 then None else Some (a / b))"

text \<open>Conversion of a float to an integer type truncates towards zero.\<close>

definition trunc_real :: "real \<Rightarrow> int" where
  "trunc_real r = (if 0 \<le> r then \<lfloor>r\<rfloor> else \<lceil>r\<rceil>)"

definition float_to_u8 :: "real \<Rightarrow> u8 option" where
  "float_to_u8 r =
     (let t = trunc_real r in if 0 \<le> t \<and> t \<le> 255 then Some (word_of_int t) else None)"

subsection \<open>\<^verbatim>\<open>setup()\<close>\<close>

text \<open>
  \<^verbatim>\<open>float angle = i * 3.14159f * 2.0f / 8.0f - 3.14159f / 2.0f;\<close>
  \<^verbatim>\<open>rod_fx[i] = cos(angle) * ROD_ORBIT;  rod_fy[i] = sin(angle) * ROD_ORBIT;\<close>
\<close>

definition rod_angle :: "nat \<Rightarrow> real" where
  "rod_angle i = real i * (314159 / 100000) * 2 / 8 - (314159 / 100000) / 2"

definition setup_init :: "u8 list list \<Rightarrow> real \<times> real \<Rightarrow> state" where
  "setup_init notes cal =
     \<lparr> chime_notes = notes,
       current_chime = 0,
       cal_ax = fst cal,
       cal_ay = snd cal,
       ball_x = 0, ball_y = 0, ball_vx = 0, ball_vy = 0,
       rod_last_hit = replicate 8 0,
       rod_glow = replicate 8 0,
       rod_fx = map (\<lambda>i. cos (rod_angle i) * real_of_int ROD_ORBIT) [0..<8],
       rod_fy = map (\<lambda>i. sin (rod_angle i) * real_of_int ROD_ORBIT) [0..<8] \<rparr>"

subsection \<open>Buttons\<close>

text \<open>The part of \<^verbatim>\<open>drawFullScreen()\<close> that writes state: the ball is reset.\<close>

definition drawFullScreen :: "state \<Rightarrow> state" where
  "drawFullScreen s = s\<lparr>ball_x := 0, ball_y := 0, ball_vx := 0, ball_vy := 0\<rparr>"

text \<open>
  \<^verbatim>\<open>current_chime = (ChimeType)((current_chime + 3) % 4);\<close> and
  \<^verbatim>\<open>current_chime = (ChimeType)((current_chime + 1) % 4);\<close>.
  The remainder of C++ truncates towards zero, which is \<open>smod\<close>.
\<close>

definition prev_chime :: "int \<Rightarrow> int" where
  "prev_chime c = (c + 3) smod 4"

definition next_chime :: "int \<Rightarrow> int" where
  "next_chime c = (c + 1) smod 4"

definition handle_buttons :: "tick_input \<Rightarrow> state \<Rightarrow> state" where
  "handle_buttons inp s =
     (let s1 = (if btnA inp
                then drawFullScreen (s\<lparr>current_chime := prev_chime (current_chime s)\<rparr>)
                else s);
          s2 = (if btnB inp
                then drawFullScreen
                       (s1\<lparr>cal_ax := fst (cal_sample inp), cal_ay := snd (cal_sample inp),
                           ball_x := 0, ball_y := 0, ball_vx := 0, ball_vy := 0\<rparr>)
                else s1);
          s3 = (if btnC inp
                then drawFullScreen (s2\<lparr>current_chime := next_chime (current_chime s2)\<rparr>)
                else s2)
      in s3)"

subsection \<open>Ball physics (steps 1 to 4 of \<^verbatim>\<open>loop()\<close>)\<close>

definition speed_of :: "state \<Rightarrow> real" where
  "speed_of s = sqrt (ball_vx s * ball_vx s + ball_vy s * ball_vy s)"

definition dist_from_center :: "state \<Rightarrow> real" where
  "dist_from_center s = sqrt (ball_x s * ball_x s + ball_y s * ball_y s)"

definition max_dist :: real where
  "max_dist = real_of_int (TUBE_R - BALL_R - 4)"

text \<open>Steps 1 and 2: calibrated tilt, gravity on the ball, friction.\<close>

definition update_velocity :: "tick_input \<Rightarrow> state \<Rightarrow> state" where
  "update_velocity inp s =
     (let ax = fst (accel inp) - cal_ax s;
          ay = snd (accel inp) - cal_ay s;
          vx = ball_vx s - ax * GRAVITY_SCALE * (2 / 100);
          vy = ball_vy s + ay * GRAVITY_SCALE * (2 / 100)
      in s\<lparr>ball_vx := vx * FRICTION, ball_vy := vy * FRICTION\<rparr>)"

definition clamp_speed :: "state \<Rightarrow> state option" where
  "clamp_speed s =
     (let speed = speed_of s in
      if speed > MAX_SPEED
      then do {
        qx \<leftarrow> fdiv (ball_vx s) speed;
        qy \<leftarrow> fdiv (ball_vy s) speed;
        Some (s\<lparr>ball_vx := qx * MAX_SPEED, ball_vy := qy * MAX_SPEED\<rparr>)
      }
      else Some s)"

definition update_position :: "state \<Rightarrow> state" where
  "update_position s = s\<lparr>ball_x := ball_x s + ball_vx s, ball_y := ball_y s + ball_vy s\<rparr>"

definition constrain_to_tube :: "state \<Rightarrow> state option" where
  "constrain_to_tube s =
     (let d = dist_from_center s in
      if d > max_dist
      then do {
        nx \<leftarrow> fdiv (ball_x s) d;
        ny \<leftarrow> fdiv (ball_y s) d;
        let dot = ball_vx s * nx + ball_vy s * ny;
        let vx = ball_vx s - 2 * dot * nx;
        let vy = ball_vy s - 2 * dot * ny;
        Some (s\<lparr>ball_x := nx * max_dist, ball_y := ny * max_dist,
                ball_vx := vx * (1 / 2), ball_vy := vy * (1 / 2)\<rparr>)
      }
      else Some s)"

definition physics_step :: "tick_input \<Rightarrow> state \<Rightarrow> state option" where
  "physics_step inp s = do {
     s1 \<leftarrow> clamp_speed (update_velocity inp s);
     constrain_to_tube (update_position s1)
   }"

subsection \<open>Rod collisions (step 5)\<close>

text \<open>The distance of the ball from rod \<open>i\<close>, and the condition of the \<^verbatim>\<open>if\<close>.\<close>

definition rod_dist :: "state \<Rightarrow> nat \<Rightarrow> real" where
  "rod_dist s i =
     (let dx = ball_x s - rod_fx s ! i; dy = ball_y s - rod_fy s ! i
      in sqrt (dx * dx + dy * dy))"

definition rod_hit :: "u32 \<Rightarrow> state \<Rightarrow> nat \<Rightarrow> bool" where
  "rod_hit t s i \<longleftrightarrow>
     rod_dist s i < HIT_DIST \<and> t - rod_last_hit s ! i > word_of_int ROD_DEBOUNCE"

text \<open>
  \<^verbatim>\<open>uint8_t velocity = (uint8_t)(30 + hit_speed * 5); if (velocity > 127) velocity = 127;\<close>
\<close>

definition note_velocity :: "real \<Rightarrow> u8 option" where
  "note_velocity hit_speed = do {
     v \<leftarrow> float_to_u8 (30 + hit_speed * 5);
     Some (if v > 127 then 127 else v)
   }"

text \<open>
  The rod response:
  \<^verbatim>\<open>if (d > 0.1f) { float bnx = dx / d; float bny = dy / d;\<close>
  \<^verbatim>\<open>  ball_vx = bnx * ROD_BOUNCE; ball_vy = bny * ROD_BOUNCE; }\<close>
\<close>

definition bounce_off_rod :: "real \<Rightarrow> real \<Rightarrow> real \<Rightarrow> state \<Rightarrow> state option" where
  "bounce_off_rod dx dy d s =
     (if d > 1 / 10
      then do {
        bnx \<leftarrow> fdiv dx d;
        bny \<leftarrow> fdiv dy d;
        Some (s\<lparr>ball_vx := bnx * ROD_BOUNCE, ball_vy := bny * ROD_BOUNCE\<rparr>)
      }
      else Some s)"

text \<open>The body of the \<^verbatim>\<open>for\<close> loop for one index \<open>i\<close>.\<close>

definition check_rod :: "u32 \<Rightarrow> nat \<Rightarrow> state \<Rightarrow> (state \<times> strike list) option" where
  "check_rod t i s =
     (let dx = ball_x s - rod_fx s ! i;
          dy = ball_y s - rod_fy s ! i;
          d = sqrt (dx * dx + dy * dy)
      in if d < HIT_DIST \<and> t - rod_last_hit s ! i > word_of_int ROD_DEBOUNCE
         then do {
           let s1 = s\<lparr>rod_last_hit := (rod_last_hit s)[i := t],
                      rod_glow := (rod_glow s)[i := 15]\<rparr>;
           v \<leftarrow> note_velocity (speed_of s1);
           let n = chime_notes s1 ! nat (current_chime s1) ! i;
           s2 \<leftarrow> bounce_off_rod dx dy d s1;
           Some (s2, [\<lparr>rod = i, pitch = n, velocity = v\<rparr>])
         }
         else Some (s, []))"

fun rod_loop :: "u32 \<Rightarrow> nat list \<Rightarrow> state \<Rightarrow> (state \<times> strike list) option" where
  "rod_loop t [] s = Some (s, [])"
| "rod_loop t (i # is) s = do {
     (s1, ev1) \<leftarrow> check_rod t i s;
     (s2, ev2) \<leftarrow> rod_loop t is s1;
     Some (s2, ev1 @ ev2)
   }"

definition check_rods :: "u32 \<Rightarrow> state \<Rightarrow> (state \<times> strike list) option" where
  "check_rods t s = rod_loop t [0..<8] s"

subsection \<open>\<^verbatim>\<open>drawUpdate()\<close>: glow decay (step 6)\<close>

definition decay_glow :: "nat \<Rightarrow> state \<Rightarrow> state" where
  "decay_glow i s =
     (if rod_glow s ! i > 0
      then s\<lparr>rod_glow := (rod_glow s)[i := rod_glow s ! i - 1]\<rparr>
      else s)"

definition drawUpdate :: "state \<Rightarrow> state" where
  "drawUpdate s = fold decay_glow [0..<8] s"

subsection \<open>One call of \<^verbatim>\<open>loop()\<close>, and a run of calls\<close>

definition loop :: "tick_input \<Rightarrow> state \<Rightarrow> (state \<times> strike list) option" where
  "loop inp s = do {
     s1 \<leftarrow> physics_step inp (handle_buttons inp s);
     (s2, ev) \<leftarrow> check_rods (now inp) s1;
     Some (drawUpdate s2, ev)
   }"

fun run :: "state \<Rightarrow> tick_input list \<Rightarrow> (state \<times> strike list) option" where
  "run s [] = Some (s, [])"
| "run s (inp # inps) = do {
     (s1, ev1) \<leftarrow> loop inp s;
     (s2, ev2) \<leftarrow> run s1 inps;
     Some (s2, ev1 @ ev2)
   }"

subsection \<open>Closed form of a strike\<close>

text \<open>
  The state that the body of the \<^verbatim>\<open>if\<close> in the rod loop leaves behind, written without
  the option monad. Lemma \<open>check_rod_hit\<close> shows that \<open>check_rod\<close> computes exactly
  this state whenever the rod is hit.
\<close>

definition struck :: "u32 \<Rightarrow> nat \<Rightarrow> state \<Rightarrow> state" where
  "struck t i s =
     (let dx = ball_x s - rod_fx s ! i; dy = ball_y s - rod_fy s ! i; d = rod_dist s i;
          s1 = s\<lparr>rod_last_hit := (rod_last_hit s)[i := t], rod_glow := (rod_glow s)[i := 15]\<rparr>
      in if d > 1 / 10
         then s1\<lparr>ball_vx := dx / d * ROD_BOUNCE, ball_vy := dy / d * ROD_BOUNCE\<rparr>
         else s1)"


subsection \<open>Auxiliary constants\<close>

text \<open>
  The angle between two neighbouring rods as \<^verbatim>\<open>setup()\<close> computes it,
  \<open>3.14159 * 2 / 8\<close>; \<open>rod_angle i\<close> is \<open>(i - 2) * hstep\<close>.
\<close>

definition hstep :: real where "hstep = 314159 / 400000"

text \<open>
  Concrete inputs for the closed examples: a note table of the shape of \<^verbatim>\<open>chime_notes\<close>
  (the MIDI numbers of the note names in the comments of the source; no theorem depends on
  the values), and a tick with no button edge and the accelerometer at the calibration
  offset \<open>(0, 0)\<close>.
\<close>

definition example_notes :: "u8 list list" where
  "example_notes =
     [[55, 60, 64, 67, 71, 76, 79, 83],
      [57, 62, 65, 69, 72, 76, 81, 84],
      [57, 60, 64, 69, 71, 76, 81, 84],
      [55, 59, 62, 67, 69, 74, 79, 81]]"

definition idle_tick :: "u32 \<Rightarrow> tick_input" where
  "idle_tick t = \<lparr>btnA = False, btnB = False, btnC = False,
                   cal_sample = (0, 0), accel = (0, 0), now = t\<rparr>"


subsection \<open>Closed form of the rod loop's output\<close>

text \<open>
  What the rod loop is expected to emit, as a function of the state \<open>s\<close> at its entry: the
  rods are visited in the given order; rod \<open>i\<close> fires when \<open>rod_hit t s i\<close> holds on that
  entry state; the note velocity of a strike is computed from the speed \<open>v\<close> the ball has at
  that point of the loop, which is the speed at entry until a rod fires with its distance
  guard passed, and \<open>ROD_BOUNCE\<close> from then on. Lemma \<open>rod_loop_strikes\<close> shows that
  \<open>rod_loop\<close> emits exactly these pairs of rod index and note velocity.
\<close>

fun expected_strikes :: "u32 \<Rightarrow> state \<Rightarrow> real \<Rightarrow> nat list \<Rightarrow> (nat \<times> u8) list" where
  "expected_strikes t s v [] = []"
| "expected_strikes t s v (i # is) =
     (if rod_hit t s i
      then (i, word_of_int (min 127 \<lfloor>30 + v * 5\<rfloor>))
             # expected_strikes t s (if rod_dist s i > 1 / 10 then ROD_BOUNCE else v) is
      else expected_strikes t s v is)"

subsection \<open>Runs from power-on for the closed examples\<close>

text \<open>
  Every closed example below is a run of ticks from \<open>power_on\<close>, the state \<^verbatim>\<open>setup()\<close> leaves
  (with the note table \<open>example_notes\<close> and the calibration sample \<open>(0, 0)\<close>), so each of
  them is a state the sketch reaches. A \<open>tilt_tick\<close> is a tick with no button pressed, an
  accelerometer reading and a \<^verbatim>\<open>millis()\<close> reading; the readings are chosen rational so that
  every position and velocity of the run is a rational number.

  \<open>ball_at s x y vx vy hits\<close> says that \<open>s\<close> is such a state with the ball at \<open>(x, y)\<close>, velocity
  \<open>(vx, vy)\<close> and last-hit timestamps \<open>hits\<close>; the rods are where \<^verbatim>\<open>setup()\<close> put them, the
  calibration offset is \<open>(0, 0)\<close> and the chime is number 0.
\<close>

definition tilt_tick :: "real \<Rightarrow> real \<Rightarrow> u32 \<Rightarrow> tick_input" where
  "tilt_tick ax ay t = \<lparr>btnA = False, btnB = False, btnC = False,
                        cal_sample = (0, 0), accel = (ax, ay), now = t\<rparr>"

definition power_on :: state where
  "power_on = setup_init example_notes (0, 0)"

definition ball_at :: "state \<Rightarrow> real \<Rightarrow> real \<Rightarrow> real \<Rightarrow> real \<Rightarrow> u32 list \<Rightarrow> bool" where
  "ball_at s x y vx vy hits \<longleftrightarrow>
     ball_x s = x \<and> ball_y s = y \<and> ball_vx s = vx \<and> ball_vy s = vy
     \<and> rod_last_hit s = hits \<and> length hits = 8 \<and> length (rod_glow s) = 8
     \<and> rod_fx s = rod_fx power_on \<and> rod_fy s = rod_fy power_on
     \<and> cal_ax s = 0 \<and> cal_ay s = 0
     \<and> chime_notes s = example_notes \<and> current_chime s = 0"

text \<open>
  The rod positions are values of \<open>cos\<close> and \<open>sin\<close>. Each lies within \<open>1/4\<close> of the point of
  \<open>nominal_rods\<close> with the same index (proved below), so the distance test of \<open>rod_hit\<close> is
  decided by rational arithmetic whenever the ball is not too close to the circle of radius
  \<open>HIT_DIST\<close> around a rod: \<open>far_rod\<close> puts the ball outside it, \<open>near_rod\<close> inside it and more
  than \<open>0.1\<close> from the rod. \<open>nominal_strikes\<close> is \<open>expected_strikes\<close> with the distance tests
  replaced by \<open>near_rod\<close>.
\<close>

definition nominal_rods :: "(real \<times> real) list" where
  "nominal_rods =
     [(0, - 55), (3889 / 100, - 3889 / 100), (55, 0), (3889 / 100, 3889 / 100),
      (0, 55), (- 3889 / 100, 3889 / 100), (- 55, 0), (- 3889 / 100, - 3889 / 100)]"

definition far_rod :: "nat \<Rightarrow> real \<Rightarrow> real \<Rightarrow> bool" where
  "far_rod i x y \<longleftrightarrow>
     97 / 4 \<le> \<bar>x - fst (nominal_rods ! i)\<bar> \<or> 97 / 4 \<le> \<bar>y - snd (nominal_rods ! i)\<bar>"

definition near_rod :: "nat \<Rightarrow> real \<Rightarrow> real \<Rightarrow> bool" where
  "near_rod i x y \<longleftrightarrow>
     (\<bar>x - fst (nominal_rods ! i)\<bar> + 1 / 4) * (\<bar>x - fst (nominal_rods ! i)\<bar> + 1 / 4)
       + (\<bar>y - snd (nominal_rods ! i)\<bar> + 1 / 4) * (\<bar>y - snd (nominal_rods ! i)\<bar> + 1 / 4) < 576
     \<and> (1 \<le> \<bar>x - fst (nominal_rods ! i)\<bar> \<or> 1 \<le> \<bar>y - snd (nominal_rods ! i)\<bar>)"

fun nominal_strikes :: "u32 \<Rightarrow> real \<Rightarrow> real \<Rightarrow> u32 list \<Rightarrow> real \<Rightarrow> nat list \<Rightarrow> (nat \<times> u8) list" where
  "nominal_strikes t x y hits v [] = []"
| "nominal_strikes t x y hits v (i # is) =
     (if near_rod i x y \<and> 80 < t - hits ! i
      then (i, word_of_int (min 127 \<lfloor>30 + v * 5\<rfloor>)) # nominal_strikes t x y hits ROD_BOUNCE is
      else nominal_strikes t x y hits v is)"

text \<open>
  The runs.
  \<^item> \<open>approach t0\<close>: three ticks, 20 ms apart from \<open>t0\<close>, tilted so that the ball leaves the
    center along the axis through rod 2, which sits at \<open>(55, 0)\<close>; it arrives at \<open>(24, 0)\<close>
    with velocity \<open>(12, 0)\<close> and has struck nothing.
  \<^item> \<open>glance_run\<close>: the approach, then a level tick. Friction brings the speed to 11.64, the
    ball reaches \<open>(35.64, 0)\<close> and strikes rod 2.
  \<^item> \<open>full_run\<close>: the approach, then a tick tilted so that the speed is exactly \<open>MAX_SPEED\<close>;
    the ball reaches \<open>(44, 0)\<close> and strikes rod 2.
  \<^item> \<open>lens_run\<close>: four ticks that bring the ball to \<open>(42, 17.5)\<close> with velocity \<open>(12, 5)\<close>,
    speed 13. The point is within \<open>HIT_DIST\<close> of rod 2 and of rod 3, and no rod was struck
    before.
  \<^item> \<open>debounced_run\<close>: the approach, a strike of rod 2 at \<open>(32, 0)\<close> at time 3060, then three
    ticks that bring the ball to the same point \<open>(42, 17.5)\<close> with the same velocity
    \<open>(12, 5)\<close> at time 3120, when rod 2 is still debounced.
  \<^item> \<open>wrap_run\<close>: the approach from \<^verbatim>\<open>millis() = 4294967200\<close>, a strike of rod 2 at \<open>(32, 0)\<close>
    at 4294967260, a tick that stops the ball there, and level ticks every 20 ms while the
    32-bit counter wraps around, up to \<^verbatim>\<open>millis() = 64\<close>, 100 ms after the strike.

  \<open>last_tick_entry r\<close> is the state in which the last tick of the run \<open>r\<close> enters its rod loop,
  and \<open>last_tick_strikes r\<close> are the strikes of that tick.
\<close>

definition approach :: "u32 \<Rightarrow> tick_input list" where
  "approach t0 = [tilt_tick (- 500 / 291) 0 t0, tilt_tick (- 515 / 291) 0 (t0 + 20),
                  tilt_tick (- 530 / 291) 0 (t0 + 40)]"

definition glance_run :: "tick_input list" where
  "glance_run = approach 3000 @ [tilt_tick 0 0 3060]"


definition lens_run :: "tick_input list" where
  "lens_run = [tilt_tick (- 250 / 97) (625 / 582) 3000, tilt_tick (- 515 / 194) (2575 / 2328) 3020,
               tilt_tick (- 15 / 97) (25 / 388) 3040] @ [tilt_tick (- 15 / 97) (25 / 388) 3060]"

definition debounced_run :: "tick_input list" where
  "debounced_run =
     (approach 3000 @ [tilt_tick (455 / 291) 0 3060, tilt_tick (515 / 582) (250 / 97) 3080,
                       tilt_tick (- 245 / 97) (85 / 291) 3100])
       @ [tilt_tick (- 2515 / 582) (- 435 / 776) 3120]"

definition wrap_run :: "tick_input list" where
  "wrap_run =
     (approach 4294967200 @ [tilt_tick (455 / 291) 0 4294967260, tilt_tick (- 5 / 6) 0 4294967280,
                             tilt_tick 0 0 4, tilt_tick 0 0 24, tilt_tick 0 0 44])
       @ [tilt_tick 0 0 64]"

definition last_tick_entry :: "tick_input list \<Rightarrow> state" where
  "last_tick_entry r =
     the (physics_step (last r) (handle_buttons (last r) (fst (the (run power_on (butlast r))))))"

definition last_tick_strikes :: "tick_input list \<Rightarrow> strike list" where
  "last_tick_strikes r = snd (the (loop (last r) (fst (the (run power_on (butlast r))))))"

section \<open>Properties\<close>

subsection \<open>Vector arithmetic\<close>


lemma norm_scaled:
  fixes a b d k :: real
  assumes d: "d = sqrt (a * a + b * b)" and pos: "0 < d"
  shows "sqrt ((a / d * k) * (a / d * k) + (b / d * k) * (b / d * k)) = \<bar>k\<bar>"
proof -
  have dd: "d * d = a * a + b * b"
    using d by (simp add: power2_eq_square [symmetric])
  have "(a / d * k) * (a / d * k) + (b / d * k) * (b / d * k) = (a * a + b * b) / (d * d) * (k * k)"
    using pos by (simp add: field_simps)
  also have "\<dots> = k * k"
  proof -
    have "a * a + b * b \<noteq> 0" using dd pos by auto
    then show ?thesis by (auto simp: dd)
  qed
  finally show ?thesis
    by (simp add: power2_eq_square [symmetric])
qed

lemma fdiv_Some: "b \<noteq> 0 \<Longrightarrow> fdiv a b = Some (a / b)"
  by (simp add: fdiv_def)

lemma clamp_speed_eq:
  "clamp_speed s =
     Some (if speed_of s > MAX_SPEED
           then s\<lparr>ball_vx := ball_vx s / speed_of s * MAX_SPEED,
                  ball_vy := ball_vy s / speed_of s * MAX_SPEED\<rparr>
           else s)"
  by (auto simp: clamp_speed_def Let_def fdiv_def MAX_SPEED_def)

lemma speed_clamp_speed:
  assumes "clamp_speed s = Some s'"
  shows "speed_of s' \<le> MAX_SPEED"
proof (cases "speed_of s > MAX_SPEED")
  case True
  then have pos: "0 < speed_of s" by (simp add: MAX_SPEED_def)
  from True assms have s': "s' = s\<lparr>ball_vx := ball_vx s / speed_of s * MAX_SPEED,
                  ball_vy := ball_vy s / speed_of s * MAX_SPEED\<rparr>"
    by (simp add: clamp_speed_eq)
  have "speed_of s' = \<bar>MAX_SPEED\<bar>"
    unfolding s' using norm_scaled [OF _ pos, of "ball_vx s" "ball_vy s" MAX_SPEED]
    by (simp add: speed_of_def)
  then show ?thesis by (simp add: MAX_SPEED_def)
next
  case False
  with assms show ?thesis by (simp add: clamp_speed_eq)
qed

lemma constrain_to_tube_eq:
  "constrain_to_tube s =
     Some (if dist_from_center s > max_dist
           then (let d = dist_from_center s; nx = ball_x s / d; ny = ball_y s / d;
                     dot = ball_vx s * nx + ball_vy s * ny
                 in s\<lparr>ball_x := nx * max_dist, ball_y := ny * max_dist,
                      ball_vx := (ball_vx s - 2 * dot * nx) * (1 / 2),
                      ball_vy := (ball_vy s - 2 * dot * ny) * (1 / 2)\<rparr>)
           else s)"
  by (auto simp: constrain_to_tube_def Let_def fdiv_def max_dist_def TUBE_R_def BALL_R_def)

lemma max_dist_val: "max_dist = 51"
  by (simp add: max_dist_def TUBE_R_def BALL_R_def)

lemma dist_constrain_to_tube:
  assumes "constrain_to_tube s = Some s'"
  shows "dist_from_center s' \<le> max_dist"
proof (cases "dist_from_center s > max_dist")
  case True
  then have pos: "0 < dist_from_center s" by (simp add: max_dist_val)
  from True assms have s': "ball_x s' = ball_x s / dist_from_center s * max_dist"
     "ball_y s' = ball_y s / dist_from_center s * max_dist"
    by (auto simp add: constrain_to_tube_eq Let_def)
  have "dist_from_center s' = \<bar>max_dist\<bar>"
    using norm_scaled [OF _ pos, of "ball_x s" "ball_y s" max_dist]
    by (simp add: dist_from_center_def s')
  then show ?thesis by (simp add: max_dist_val)
next
  case False
  with assms show ?thesis by (simp add: constrain_to_tube_eq)
qed

lemma reflect_norm:
  fixes vx vy nx ny :: real
  assumes n: "nx * nx + ny * ny = 1"
  shows "(vx - 2 * (vx * nx + vy * ny) * nx) * (vx - 2 * (vx * nx + vy * ny) * nx)
       + (vy - 2 * (vx * nx + vy * ny) * ny) * (vy - 2 * (vx * nx + vy * ny) * ny)
       = vx * vx + vy * vy"
proof -
  define t where "t = vx * nx + vy * ny"
  have "(vx - 2 * t * nx) * (vx - 2 * t * nx) + (vy - 2 * t * ny) * (vy - 2 * t * ny)
      = vx * vx + vy * vy - 4 * t * (vx * nx + vy * ny) + 4 * t * t * (nx * nx + ny * ny)"
    by (simp add: algebra_simps)
  also have "\<dots> = vx * vx + vy * vy"
    by (simp add: n t_def)
  finally show ?thesis by (simp add: t_def)
qed


lemma unit_normal:
  fixes a b d :: real
  assumes d: "d = sqrt (a * a + b * b)" and pos: "0 < d"
  shows "(a / d) * (a / d) + (b / d) * (b / d) = 1"
proof -
  have dd: "d * d = a * a + b * b"
    using d by (simp add: power2_eq_square [symmetric])
  have nz: "a * a + b * b \<noteq> 0" using dd pos by auto
  have "(a / d) * (a / d) + (b / d) * (b / d) = (a * a + b * b) / (d * d)"
    using pos by (simp add: field_simps)
  also have "\<dots> = 1" using nz by (auto simp: dd)
  finally show ?thesis .
qed

lemma sqrt_half:
  fixes p q :: real
  shows "sqrt ((p * (1 / 2)) * (p * (1 / 2)) + (q * (1 / 2)) * (q * (1 / 2))) = sqrt (p * p + q * q) / 2"
proof -
  have e: "(p * (1 / 2)) * (p * (1 / 2)) + (q * (1 / 2)) * (q * (1 / 2)) = (p * p + q * q) / 2\<^sup>2"
    by (simp add: field_simps power2_eq_square)
  show ?thesis
    unfolding e by (simp add: real_sqrt_divide)
qed

lemma speed_of_nonneg: "0 \<le> speed_of s"
  by (simp add: speed_of_def)

lemma speed_constrain_to_tube:
  assumes "constrain_to_tube s = Some s'"
  shows "speed_of s' \<le> speed_of s"
proof (cases "dist_from_center s > max_dist")
  case True
  then have pos: "0 < dist_from_center s" by (simp add: max_dist_val)
  define nx where "nx = ball_x s / dist_from_center s"
  define ny where "ny = ball_y s / dist_from_center s"
  define rx where "rx = ball_vx s - 2 * (ball_vx s * nx + ball_vy s * ny) * nx"
  define ry where "ry = ball_vy s - 2 * (ball_vx s * nx + ball_vy s * ny) * ny"
  have n1: "nx * nx + ny * ny = 1"
    unfolding nx_def ny_def
    by (rule unit_normal [OF _ pos]) (simp add: dist_from_center_def)
  from True assms have v: "ball_vx s' = rx * (1 / 2)" "ball_vy s' = ry * (1 / 2)"
    by (auto simp add: constrain_to_tube_eq Let_def rx_def ry_def nx_def ny_def)
  have "speed_of s' = sqrt (rx * rx + ry * ry) / 2"
    by (simp only: speed_of_def v sqrt_half)
  also have "rx * rx + ry * ry = ball_vx s * ball_vx s + ball_vy s * ball_vy s"
    unfolding rx_def ry_def by (rule reflect_norm [OF n1])
  finally have "speed_of s' = speed_of s / 2"
    by (simp add: speed_of_def)
  then show ?thesis using speed_of_nonneg [of s] by simp
next
  case False
  with assms show ?thesis by (simp add: constrain_to_tube_eq)
qed

lemma speed_update_position [simp]: "speed_of (update_position s) = speed_of s"
  by (simp add: speed_of_def update_position_def)

lemma physics_step_Some: "\<exists>s'. physics_step inp s = Some s'"
  by (simp add: physics_step_def clamp_speed_eq constrain_to_tube_eq)

lemma physics_step_bounds:
  assumes "physics_step inp s = Some s'"
  shows "dist_from_center s' \<le> max_dist" and "speed_of s' \<le> MAX_SPEED"
proof -
  from assms obtain s1 where c: "clamp_speed (update_velocity inp s) = Some s1"
    and t: "constrain_to_tube (update_position s1) = Some s'"
    by (auto simp: physics_step_def split: bind_splits)
  show "dist_from_center s' \<le> max_dist"
    by (rule dist_constrain_to_tube [OF t])
  have "speed_of s' \<le> speed_of (update_position s1)"
    by (rule speed_constrain_to_tube [OF t])
  also have "\<dots> \<le> MAX_SPEED"
    using speed_clamp_speed [OF c] by simp
  finally show "speed_of s' \<le> MAX_SPEED" .
qed

subsection \<open>Note velocity\<close>


lemma trunc_real_nonneg: "0 \<le> r \<Longrightarrow> trunc_real r = \<lfloor>r\<rfloor>"
  by (simp add: trunc_real_def)

lemma u8_of_int_less:
  assumes "0 \<le> t" "t < 256"
  shows "(127 :: u8) < word_of_int t \<longleftrightarrow> 127 < t"
proof -
  have "uint (word_of_int t :: u8) = t"
    using assms by (simp add: uint_word_of_int take_bit_eq_mod)
  then show ?thesis by (simp add: word_less_def)
qed

lemma note_velocity_eq:
  assumes "0 \<le> hs" "hs \<le> 45"
  shows "note_velocity hs = Some (word_of_int (min 127 \<lfloor>30 + hs * 5\<rfloor>))"
proof -
  define t where "t = \<lfloor>30 + hs * 5\<rfloor>"
  have lo: "30 \<le> t" using assms unfolding t_def by (simp add: le_floor_iff)
  have hi: "t \<le> 255" using assms unfolding t_def by (simp add: floor_le_iff)
  have tr: "trunc_real (30 + hs * 5) = t"
    using assms by (simp add: trunc_real_nonneg t_def)
  have cmp: "(127 :: u8) < word_of_int t \<longleftrightarrow> 127 < t"
    using lo hi by (intro u8_of_int_less) simp_all
  show ?thesis
    using lo hi by (simp add: note_velocity_def float_to_u8_def tr cmp min_def t_def [symmetric])
qed

lemma note_velocity_range:
  assumes "0 \<le> hs" "hs \<le> 45"
  shows "\<exists>v. note_velocity hs = Some v \<and> 30 \<le> unat v \<and> unat v \<le> 127
           \<and> int (unat v) = min 127 \<lfloor>30 + hs * 5\<rfloor>"
proof -
  define m where "m = min 127 \<lfloor>30 + hs * 5\<rfloor>"
  have lo: "30 \<le> m" using assms unfolding m_def by (simp add: le_floor_iff)
  have hi: "m \<le> 127" unfolding m_def by simp
  have nv: "note_velocity hs = Some (word_of_int m)"
    using note_velocity_eq [OF assms] unfolding m_def .
  have "uint (word_of_int m :: u8) = m"
    using lo hi by (simp add: uint_word_of_int take_bit_eq_mod)
  then have u: "int (unat (word_of_int m :: u8)) = m"
    by simp
  have "30 \<le> unat (word_of_int m :: u8) \<and> unat (word_of_int m :: u8) \<le> 127"
    using lo hi u by linarith
  with nv u show ?thesis
    unfolding m_def [symmetric] by blast
qed

subsection \<open>The rod loop\<close>


lemma bounce_off_rod_eq:
  "bounce_off_rod dx dy d s =
     Some (if d > 1 / 10
           then s\<lparr>ball_vx := dx / d * ROD_BOUNCE, ball_vy := dy / d * ROD_BOUNCE\<rparr>
           else s)"
  by (auto simp: bounce_off_rod_def fdiv_def)

lemma check_rod_miss: "\<not> rod_hit t s i \<Longrightarrow> check_rod t i s = Some (s, [])"
  by (auto simp: check_rod_def rod_hit_def rod_dist_def Let_def)

lemma check_rod_hit:
  assumes hit: "rod_hit t s i" and sp: "speed_of s \<le> 45"
  shows "check_rod t i s =
           Some (struck t i s,
                 [\<lparr>rod = i, pitch = chime_notes s ! nat (current_chime s) ! i,
                   velocity = word_of_int (min 127 \<lfloor>30 + speed_of s * 5\<rfloor>)\<rparr>])"
proof -
  have nv: "note_velocity (speed_of s) = Some (word_of_int (min 127 \<lfloor>30 + speed_of s * 5\<rfloor>))"
    by (rule note_velocity_eq [OF speed_of_nonneg sp])
  have sp1: "speed_of (s\<lparr>rod_last_hit := a, rod_glow := b\<rparr>) = speed_of s" for a b
    by (simp add: speed_of_def)
  from hit show ?thesis
    unfolding check_rod_def rod_hit_def rod_dist_def struck_def Let_def
    by (simp only: sp1 nv bounce_off_rod_eq if_True bind.bind_lunit simp_thms)
       (simp add: rod_dist_def)
qed


lemma struck_frame [simp]:
  "ball_x (struck t i s) = ball_x s"
  "ball_y (struck t i s) = ball_y s"
  "rod_fx (struck t i s) = rod_fx s"
  "rod_fy (struck t i s) = rod_fy s"
  "chime_notes (struck t i s) = chime_notes s"
  "current_chime (struck t i s) = current_chime s"
  "cal_ax (struck t i s) = cal_ax s"
  "cal_ay (struck t i s) = cal_ay s"
  "rod_last_hit (struck t i s) = (rod_last_hit s)[i := t]"
  "rod_glow (struck t i s) = (rod_glow s)[i := 15]"
  by (simp_all add: struck_def Let_def)

lemma speed_struck:
  "speed_of (struck t i s) = (if rod_dist s i > 1 / 10 then ROD_BOUNCE else speed_of s)"
proof (cases "rod_dist s i > 1 / 10")
  case True
  then have pos: "0 < rod_dist s i" by simp
  have "speed_of (struck t i s) = \<bar>ROD_BOUNCE\<bar>"
    using True
      norm_scaled [OF _ pos, of "ball_x s - rod_fx s ! i" "ball_y s - rod_fy s ! i" ROD_BOUNCE]
    by (simp add: struck_def Let_def speed_of_def rod_dist_def)
  with True show ?thesis by (simp add: ROD_BOUNCE_def)
next
  case False
  then show ?thesis by (simp add: struck_def Let_def speed_of_def)
qed

lemma speed_struck_le: "speed_of s \<le> MAX_SPEED \<Longrightarrow> speed_of (struck t i s) \<le> MAX_SPEED"
  by (simp add: speed_struck ROD_BOUNCE_def MAX_SPEED_def)

lemma check_rod_eq:
  assumes "speed_of s \<le> MAX_SPEED"
  shows "check_rod t i s =
           Some (if rod_hit t s i
                 then (struck t i s,
                       [\<lparr>rod = i, pitch = chime_notes s ! nat (current_chime s) ! i,
                         velocity = word_of_int (min 127 \<lfloor>30 + speed_of s * 5\<rfloor>)\<rparr>])
                 else (s, []))"
proof -
  have "speed_of s \<le> 45" using assms by (simp add: MAX_SPEED_def)
  then show ?thesis
    by (simp add: check_rod_hit check_rod_miss)
qed

lemma rod_hit_cong:
  assumes "ball_x s' = ball_x s" "ball_y s' = ball_y s" "rod_fx s' = rod_fx s"
    "rod_fy s' = rod_fy s" "rod_last_hit s' ! j = rod_last_hit s ! j"
  shows "rod_hit t s' j = rod_hit t s j"
  using assms by (simp add: rod_hit_def rod_dist_def)

lemma rod_hit_struck: "j \<noteq> i \<Longrightarrow> rod_hit t (struck t i s) j = rod_hit t s j"
  by (rule rod_hit_cong) simp_all

lemma rod_loop_Cons_hit:
  assumes "speed_of s \<le> MAX_SPEED" "rod_hit t s i"
  shows "rod_loop t (i # is) s =
           map_option (\<lambda>(s2, ev2). (s2, \<lparr>rod = i, pitch = chime_notes s ! nat (current_chime s) ! i,
                         velocity = word_of_int (min 127 \<lfloor>30 + speed_of s * 5\<rfloor>)\<rparr> # ev2))
             (rod_loop t is (struck t i s))"
  using assms by (cases "rod_loop t is (struck t i s)") (auto simp: check_rod_eq)

lemma rod_loop_Cons_miss:
  assumes "speed_of s \<le> MAX_SPEED" "\<not> rod_hit t s i"
  shows "rod_loop t (i # is) s = rod_loop t is s"
  using assms by (cases "rod_loop t is s") (auto simp: check_rod_eq)

lemma rod_loop_frame:
  assumes "speed_of s \<le> MAX_SPEED"
  shows "\<exists>s' ev. rod_loop t is s = Some (s', ev) \<and>
           ball_x s' = ball_x s \<and> ball_y s' = ball_y s \<and>
           rod_fx s' = rod_fx s \<and> rod_fy s' = rod_fy s \<and>
           chime_notes s' = chime_notes s \<and> current_chime s' = current_chime s \<and>
           cal_ax s' = cal_ax s \<and> cal_ay s' = cal_ay s \<and>
           length (rod_last_hit s') = length (rod_last_hit s) \<and>
           length (rod_glow s') = length (rod_glow s) \<and>
           speed_of s' \<le> MAX_SPEED"
  using assms
proof (induction "is" arbitrary: s)
  case Nil
  then show ?case by simp
next
  case (Cons i "is")
  show ?case
  proof (cases "rod_hit t s i")
    case True
    have "speed_of (struck t i s) \<le> MAX_SPEED"
      by (rule speed_struck_le [OF Cons.prems])
    from Cons.IH [OF this]
    show ?thesis
      by (auto simp: rod_loop_Cons_hit [OF Cons.prems True] simp del: rod_loop.simps)
  next
    case False
    from Cons.IH [OF Cons.prems]
    show ?thesis
      by (simp add: rod_loop_Cons_miss [OF Cons.prems False] del: rod_loop.simps)
  qed
qed

lemma rod_loop_rods:
  assumes "speed_of s \<le> MAX_SPEED" "distinct is" "rod_loop t is s = Some (s', ev)"
  shows "map rod ev = filter (rod_hit t s) is"
  using assms
proof (induction "is" arbitrary: s s' ev)
  case Nil
  then show ?case by simp
next
  case (Cons i "is")
  from Cons.prems have d: "distinct is" and ni: "i \<notin> set is" by simp_all
  show ?case
  proof (cases "rod_hit t s i")
    case True
    have "rod_hit t (struck t i s) j = rod_hit t s j" if "j \<in> set is" for j
    proof -
      from that ni have "j \<noteq> i" by blast
      then show ?thesis by (rule rod_hit_struck)
    qed
    then have same: "filter (rod_hit t (struck t i s)) is = filter (rod_hit t s) is"
      by (intro filter_cong) simp_all
    from Cons.prems(3) obtain ev2 where
      r: "rod_loop t is (struck t i s) = Some (s', ev2)" and
      e: "ev = \<lparr>rod = i, pitch = chime_notes s ! nat (current_chime s) ! i,
                  velocity = word_of_int (min 127 \<lfloor>30 + speed_of s * 5\<rfloor>)\<rparr> # ev2"
      by (auto simp: rod_loop_Cons_hit [OF Cons.prems(1) True] simp del: rod_loop.simps)
    from Cons.IH [OF speed_struck_le [OF Cons.prems(1)] d r]
    show ?thesis using True by (simp add: e same)
  next
    case False
    from Cons.prems(3) have r: "rod_loop t is s = Some (s', ev)"
      by (simp add: rod_loop_Cons_miss [OF Cons.prems(1) False] del: rod_loop.simps)
    from Cons.IH [OF Cons.prems(1) d r]
    show ?thesis using False by simp
  qed
qed


lemma velocity_word_range:
  fixes hs :: real
  assumes "0 \<le> hs" "hs \<le> 45"
  shows "30 \<le> unat (word_of_int (min 127 \<lfloor>30 + hs * 5\<rfloor>) :: u8)"
    and "unat (word_of_int (min 127 \<lfloor>30 + hs * 5\<rfloor>) :: u8) \<le> 127"
    and "int (unat (word_of_int (min 127 \<lfloor>30 + hs * 5\<rfloor>) :: u8)) = min 127 \<lfloor>30 + hs * 5\<rfloor>"
proof -
  from note_velocity_range [OF assms] note_velocity_eq [OF assms]
  show "30 \<le> unat (word_of_int (min 127 \<lfloor>30 + hs * 5\<rfloor>) :: u8)"
    and "unat (word_of_int (min 127 \<lfloor>30 + hs * 5\<rfloor>) :: u8) \<le> 127"
    and "int (unat (word_of_int (min 127 \<lfloor>30 + hs * 5\<rfloor>) :: u8)) = min 127 \<lfloor>30 + hs * 5\<rfloor>"
    by auto
qed

lemma rod_loop_velocity:
  assumes "speed_of s \<le> MAX_SPEED" "rod_loop t is s = Some (s', ev)"
  shows "\<forall>e \<in> set ev. 30 \<le> unat (velocity e) \<and> unat (velocity e) \<le> 127"
  using assms
proof (induction "is" arbitrary: s s' ev)
  case Nil
  then show ?case by simp
next
  case (Cons i "is")
  have sp: "0 \<le> speed_of s" "speed_of s \<le> 45"
    using Cons.prems(1) by (simp_all add: speed_of_nonneg MAX_SPEED_def)
  show ?case
  proof (cases "rod_hit t s i")
    case True
    from Cons.prems(2) obtain ev2 where
      r: "rod_loop t is (struck t i s) = Some (s', ev2)" and
      e: "ev = \<lparr>rod = i, pitch = chime_notes s ! nat (current_chime s) ! i,
                  velocity = word_of_int (min 127 \<lfloor>30 + speed_of s * 5\<rfloor>)\<rparr> # ev2"
      by (auto simp: rod_loop_Cons_hit [OF Cons.prems(1) True] simp del: rod_loop.simps)
    from Cons.IH [OF speed_struck_le [OF Cons.prems(1)] r]
    show ?thesis
      using velocity_word_range(1,2) [OF sp] unfolding e by simp
  next
    case False
    from Cons.prems(2) have r: "rod_loop t is s = Some (s', ev)"
      by (simp add: rod_loop_Cons_miss [OF Cons.prems(1) False] del: rod_loop.simps)
    from Cons.IH [OF Cons.prems(1) r]
    show ?thesis .
  qed
qed

lemma rod_loop_pitch:
  assumes "speed_of s \<le> MAX_SPEED" "rod_loop t is s = Some (s', ev)"
  shows "\<forall>e \<in> set ev. pitch e = chime_notes s ! nat (current_chime s) ! rod e"
  using assms
proof (induction "is" arbitrary: s s' ev)
  case Nil
  then show ?case by simp
next
  case (Cons i "is")
  show ?case
  proof (cases "rod_hit t s i")
    case True
    from Cons.prems(2) obtain ev2 where
      r: "rod_loop t is (struck t i s) = Some (s', ev2)" and
      e: "ev = \<lparr>rod = i, pitch = chime_notes s ! nat (current_chime s) ! i,
                  velocity = word_of_int (min 127 \<lfloor>30 + speed_of s * 5\<rfloor>)\<rparr> # ev2"
      by (auto simp: rod_loop_Cons_hit [OF Cons.prems(1) True] simp del: rod_loop.simps)
    from Cons.IH [OF speed_struck_le [OF Cons.prems(1)] r]
    show ?thesis unfolding e by simp
  next
    case False
    from Cons.prems(2) have r: "rod_loop t is s = Some (s', ev)"
      by (simp add: rod_loop_Cons_miss [OF Cons.prems(1) False] del: rod_loop.simps)
    from Cons.IH [OF Cons.prems(1) r]
    show ?thesis .
  qed
qed

lemma rod_loop_arrays:
  assumes "speed_of s \<le> MAX_SPEED" "distinct is" "rod_loop t is s = Some (s', ev)"
  shows "rod_last_hit s' = fold (\<lambda>k l. if rod_hit t s k then l[k := t] else l) is (rod_last_hit s)"
    and "rod_glow s' = fold (\<lambda>k l. if rod_hit t s k then l[k := 15] else l) is (rod_glow s)"
  using assms
proof (induction "is" arbitrary: s s' ev)
  case Nil
  { case 1 then show ?case by simp }
  { case 2 then show ?case by simp }
next
  case (Cons i "is")
  { case 1
    from 1 have d: "distinct is" and ni: "i \<notin> set is" by simp_all
    show ?case
    proof (cases "rod_hit t s i")
      case True
      have same: "rod_hit t (struck t i s) j = rod_hit t s j" if "j \<in> set is" for j
      proof -
        from that ni have "j \<noteq> i" by blast
        then show ?thesis by (rule rod_hit_struck)
      qed
      from 1(3) obtain ev2 where r: "rod_loop t is (struck t i s) = Some (s', ev2)"
        by (auto simp: rod_loop_Cons_hit [OF 1(1) True] simp del: rod_loop.simps)
      have "rod_last_hit s' = fold (\<lambda>k l. if rod_hit t (struck t i s) k then l[k := t] else l) is
               (rod_last_hit (struck t i s))"
        by (rule Cons.IH(1) [OF speed_struck_le [OF 1(1)] d r])
      also have "\<dots> = fold (\<lambda>k l. if rod_hit t s k then l[k := t] else l) is
               (rod_last_hit (struck t i s))"
        by (rule fold_cong) (simp_all add: same)
      finally show ?thesis using True by simp
    next
      case False
      from 1(3) have r: "rod_loop t is s = Some (s', ev)"
        by (simp add: rod_loop_Cons_miss [OF 1(1) False] del: rod_loop.simps)
      from Cons.IH(1) [OF 1(1) d r] show ?thesis using False by simp
    qed }
  { case 2
    from 2 have d: "distinct is" and ni: "i \<notin> set is" by simp_all
    show ?case
    proof (cases "rod_hit t s i")
      case True
      have same: "rod_hit t (struck t i s) j = rod_hit t s j" if "j \<in> set is" for j
      proof -
        from that ni have "j \<noteq> i" by blast
        then show ?thesis by (rule rod_hit_struck)
      qed
      from 2(3) obtain ev2 where r: "rod_loop t is (struck t i s) = Some (s', ev2)"
        by (auto simp: rod_loop_Cons_hit [OF 2(1) True] simp del: rod_loop.simps)
      have "rod_glow s' = fold (\<lambda>k l. if rod_hit t (struck t i s) k then l[k := 15] else l) is
               (rod_glow (struck t i s))"
        by (rule Cons.IH(2) [OF speed_struck_le [OF 2(1)] d r])
      also have "\<dots> = fold (\<lambda>k l. if rod_hit t s k then l[k := 15] else l) is
               (rod_glow (struck t i s))"
        by (rule fold_cong) (simp_all add: same)
      finally show ?thesis using True by simp
    next
      case False
      from 2(3) have r: "rod_loop t is s = Some (s', ev)"
        by (simp add: rod_loop_Cons_miss [OF 2(1) False] del: rod_loop.simps)
      from Cons.IH(2) [OF 2(1) d r] show ?thesis using False by simp
    qed }
qed

lemma fold_update_nth:
  "j < length l \<Longrightarrow>
   fold (\<lambda>i l. if P i then l[i := v] else l) is l ! j = (if j \<in> set is \<and> P j then v else l ! j)"
proof (induction "is" arbitrary: l)
  case Nil
  then show ?case by simp
next
  case (Cons i "is")
  then show ?case
    by (cases "i = j") auto
qed

lemma fold_update_length [simp]:
  "length (fold (\<lambda>i l. if P i then l[i := v] else l) is l) = length l"
  by (induction "is" arbitrary: l) auto

subsection \<open>Glow decay, buttons and the whole tick\<close>


lemma decay_glow_frame [simp]:
  "ball_x (decay_glow i s) = ball_x s"
  "ball_y (decay_glow i s) = ball_y s"
  "ball_vx (decay_glow i s) = ball_vx s"
  "ball_vy (decay_glow i s) = ball_vy s"
  "rod_fx (decay_glow i s) = rod_fx s"
  "rod_fy (decay_glow i s) = rod_fy s"
  "chime_notes (decay_glow i s) = chime_notes s"
  "current_chime (decay_glow i s) = current_chime s"
  "cal_ax (decay_glow i s) = cal_ax s"
  "cal_ay (decay_glow i s) = cal_ay s"
  "rod_last_hit (decay_glow i s) = rod_last_hit s"
  by (simp_all add: decay_glow_def)

lemma fold_decay_glow_frame [simp]:
  "ball_x (fold decay_glow is s) = ball_x s"
  "ball_y (fold decay_glow is s) = ball_y s"
  "ball_vx (fold decay_glow is s) = ball_vx s"
  "ball_vy (fold decay_glow is s) = ball_vy s"
  "rod_fx (fold decay_glow is s) = rod_fx s"
  "rod_fy (fold decay_glow is s) = rod_fy s"
  "chime_notes (fold decay_glow is s) = chime_notes s"
  "current_chime (fold decay_glow is s) = current_chime s"
  "cal_ax (fold decay_glow is s) = cal_ax s"
  "cal_ay (fold decay_glow is s) = cal_ay s"
  "rod_last_hit (fold decay_glow is s) = rod_last_hit s"
  by (induction "is" arbitrary: s; simp)+

lemma drawUpdate_frame [simp]:
  "ball_x (drawUpdate s) = ball_x s"
  "ball_y (drawUpdate s) = ball_y s"
  "ball_vx (drawUpdate s) = ball_vx s"
  "ball_vy (drawUpdate s) = ball_vy s"
  "rod_fx (drawUpdate s) = rod_fx s"
  "rod_fy (drawUpdate s) = rod_fy s"
  "chime_notes (drawUpdate s) = chime_notes s"
  "current_chime (drawUpdate s) = current_chime s"
  "cal_ax (drawUpdate s) = cal_ax s"
  "cal_ay (drawUpdate s) = cal_ay s"
  "rod_last_hit (drawUpdate s) = rod_last_hit s"
  by (simp_all add: drawUpdate_def)

lemma length_glow_fold_decay [simp]:
  "length (rod_glow (fold decay_glow is s)) = length (rod_glow s)"
  by (induction "is" arbitrary: s) (simp_all add: decay_glow_def)

lemma glow_fold_decay_nth:
  assumes "distinct is" "j < length (rod_glow s)"
  shows "rod_glow (fold decay_glow is s) ! j =
           (if j \<in> set is \<and> rod_glow s ! j > 0 then rod_glow s ! j - 1 else rod_glow s ! j)"
  using assms
proof (induction "is" arbitrary: s)
  case Nil
  then show ?case by simp
next
  case (Cons i "is")
  from Cons.prems have d: "distinct is" and ni: "i \<notin> set is" by simp_all
  have len: "j < length (rod_glow (decay_glow i s))"
    using Cons.prems(2) by (simp add: decay_glow_def)
  show ?case
  proof (cases "i = j")
    case True
    with ni have "j \<notin> set is" by simp
    with Cons.IH [OF d len] True Cons.prems(2) show ?thesis
      by (simp add: decay_glow_def)
  next
    case False
    with Cons.IH [OF d len] show ?thesis
      by (simp add: decay_glow_def)
  qed
qed

lemma unat_decrement:
  fixes g :: u8
  shows "unat (if g > 0 then g - 1 else g) = unat g - 1"
proof (cases "g = 0")
  case True
  then show ?thesis by simp
next
  case False
  then have "0 < g" by (simp add: word_gt_0)
  with False show ?thesis by (simp add: unat_minus_one)
qed

lemma drawUpdate_glow:
  assumes "length (rod_glow s) = 8" "i < 8"
  shows "unat (rod_glow (drawUpdate s) ! i) = unat (rod_glow s ! i) - 1"
proof -
  have "rod_glow (drawUpdate s) ! i = (if rod_glow s ! i > 0 then rod_glow s ! i - 1 else rod_glow s ! i)"
    using assms by (simp add: drawUpdate_def glow_fold_decay_nth)
  then show ?thesis by (simp only: unat_decrement)
qed

lemma length_glow_drawUpdate [simp]: "length (rod_glow (drawUpdate s)) = length (rod_glow s)"
  by (simp add: drawUpdate_def)

lemma speed_drawUpdate [simp]: "speed_of (drawUpdate s) = speed_of s"
  by (simp add: speed_of_def)

lemma dist_drawUpdate [simp]: "dist_from_center (drawUpdate s) = dist_from_center s"
  by (simp add: dist_from_center_def)

lemma handle_buttons_frame [simp]:
  "rod_fx (handle_buttons inp s) = rod_fx s"
  "rod_fy (handle_buttons inp s) = rod_fy s"
  "chime_notes (handle_buttons inp s) = chime_notes s"
  "rod_last_hit (handle_buttons inp s) = rod_last_hit s"
  "rod_glow (handle_buttons inp s) = rod_glow s"
  by (simp_all add: handle_buttons_def drawFullScreen_def Let_def)

lemma physics_step_frame:
  assumes "physics_step inp s = Some s'"
  shows "rod_fx s' = rod_fx s" "rod_fy s' = rod_fy s" "chime_notes s' = chime_notes s"
    "rod_last_hit s' = rod_last_hit s" "rod_glow s' = rod_glow s"
    "current_chime s' = current_chime s" "cal_ax s' = cal_ax s" "cal_ay s' = cal_ay s"
  using assms
  by (auto simp: physics_step_def clamp_speed_eq constrain_to_tube_eq update_velocity_def
      update_position_def Let_def split: if_splits)

lemma loop_decomp:
  obtains s1 s2 ev where
    "physics_step inp (handle_buttons inp s) = Some s1"
    "dist_from_center s1 \<le> max_dist"
    "speed_of s1 \<le> MAX_SPEED"
    "check_rods (now inp) s1 = Some (s2, ev)"
    "loop inp s = Some (drawUpdate s2, ev)"
proof -
  obtain s1 where p: "physics_step inp (handle_buttons inp s) = Some s1"
    using physics_step_Some by blast
  have sp: "speed_of s1 \<le> MAX_SPEED" by (rule physics_step_bounds(2) [OF p])
  obtain s2 ev where r: "check_rods (now inp) s1 = Some (s2, ev)"
    using rod_loop_frame [OF sp] unfolding check_rods_def by blast
  have "loop inp s = Some (drawUpdate s2, ev)"
    by (simp add: loop_def p r)
  with p physics_step_bounds(1) [OF p] sp r show ?thesis
    by (rule that)
qed


lemma chime_cases:
  fixes c :: int
  assumes "0 \<le> c" "c \<le> 3"
  shows "c = 0 \<or> c = 1 \<or> c = 2 \<or> c = 3"
  using assms by arith

lemma loop_current_chime:
  assumes "loop inp s = Some (s', ev)"
  shows "current_chime s' = current_chime (handle_buttons inp s)"
proof -
  obtain s1 s2 ev' where p: "physics_step inp (handle_buttons inp s) = Some s1"
    and sp: "speed_of s1 \<le> MAX_SPEED"
    and r: "check_rods (now inp) s1 = Some (s2, ev')"
    and l: "loop inp s = Some (drawUpdate s2, ev')"
    by (rule loop_decomp)
  from rod_loop_frame [OF sp, of "now inp" "[0..<8]"] r
  have "current_chime s2 = current_chime s1" by (auto simp: check_rods_def)
  with physics_step_frame(6) [OF p] l assms show ?thesis by simp
qed

lemma handle_buttons_next:
  assumes "btnC inp" "\<not> btnA inp"
  shows "current_chime (handle_buttons inp s) = next_chime (current_chime s)"
  using assms by (simp add: handle_buttons_def drawFullScreen_def Let_def)

lemma handle_buttons_prev:
  assumes "btnA inp" "\<not> btnC inp"
  shows "current_chime (handle_buttons inp s) = prev_chime (current_chime s)"
  using assms by (simp add: handle_buttons_def drawFullScreen_def Let_def)

lemma loop_Some: "\<exists>s' ev. loop inp s = Some (s', ev)"
  by (rule loop_decomp [of inp s]) blast


subsection \<open>The ball at rest\<close>


lemma rod_loop_all_miss:
  assumes "speed_of s \<le> MAX_SPEED" "\<forall>i \<in> set is. \<not> rod_hit t s i"
  shows "rod_loop t is s = Some (s, [])"
  using assms(2)
proof (induction "is")
  case Nil
  then show ?case by simp
next
  case (Cons i "is")
  then show ?case
    by (simp add: rod_loop_Cons_miss [OF assms(1)] del: rod_loop.simps)
qed

lemma setup_rod_nth:
  assumes "i < 8"
  shows "rod_fx (setup_init notes cal) ! i = cos (rod_angle i) * 55"
    and "rod_fy (setup_init notes cal) ! i = sin (rod_angle i) * 55"
  using assms by (simp_all add: setup_init_def ROD_ORBIT_def)

lemma orbit_norm:
  fixes a :: real
  shows "sqrt ((cos a * 55) * (cos a * 55) + (sin a * 55) * (sin a * 55)) = 55"
proof -
  have one: "cos a * cos a + sin a * sin a = 1"
    by (simp add: power2_eq_square [symmetric])
  have "(cos a * 55) * (cos a * 55) + (sin a * 55) * (sin a * 55)
      = 3025 * (cos a * cos a) + 3025 * (sin a * sin a)"
    by simp
  also have "\<dots> = 3025 * (cos a * cos a + sin a * sin a)"
    by (simp only: distrib_left)
  also have "\<dots> = 55\<^sup>2"
    by (simp only: one) simp
  finally show ?thesis by simp
qed

lemma rod_dist_from_center:
  assumes "ball_x s = 0" "ball_y s = 0" "i < 8"
    "rod_fx s = rod_fx (setup_init notes cal)" "rod_fy s = rod_fy (setup_init notes cal)"
  shows "rod_dist s i = 55"
  using orbit_norm [of "rod_angle i"]
  by (simp add: rod_dist_def assms setup_rod_nth [OF assms(3)])

lemma rest_tick:
  assumes ball: "ball_x s = 0" "ball_y s = 0" "ball_vx s = 0" "ball_vy s = 0"
    and rods: "rod_fx s = rod_fx (setup_init notes cal)" "rod_fy s = rod_fy (setup_init notes cal)"
    and cal: "cal_ax s = fst cal" "cal_ay s = snd cal"
    and inp: "accel inp = cal" "btnB inp \<longrightarrow> cal_sample inp = cal"
  shows "\<exists>s'. loop inp s = Some (s', []) \<and>
           ball_x s' = 0 \<and> ball_y s' = 0 \<and> ball_vx s' = 0 \<and> ball_vy s' = 0 \<and>
           rod_fx s' = rod_fx (setup_init notes cal) \<and> rod_fy s' = rod_fy (setup_init notes cal) \<and>
           cal_ax s' = fst cal \<and> cal_ay s' = snd cal"
proof -
  define s0 where "s0 = handle_buttons inp s"
  have b0: "ball_x s0 = 0" "ball_y s0 = 0" "ball_vx s0 = 0" "ball_vy s0 = 0"
    and c0: "cal_ax s0 = fst cal" "cal_ay s0 = snd cal"
    using ball cal inp
    by (auto simp: s0_def handle_buttons_def drawFullScreen_def Let_def)
  have r0: "rod_fx s0 = rod_fx (setup_init notes cal)" "rod_fy s0 = rod_fy (setup_init notes cal)"
    using rods by (simp_all add: s0_def)
  obtain s1 s2 ev where p: "physics_step inp s0 = Some s1"
    and sp: "speed_of s1 \<le> MAX_SPEED"
    and r: "check_rods (now inp) s1 = Some (s2, ev)"
    and l: "loop inp s = Some (drawUpdate s2, ev)"
    unfolding s0_def by (rule loop_decomp)
  have b1: "ball_x s1 = 0" "ball_y s1 = 0" "ball_vx s1 = 0" "ball_vy s1 = 0"
    using p b0 c0 inp(1)
    by (auto simp: physics_step_def clamp_speed_eq constrain_to_tube_eq update_velocity_def
        update_position_def Let_def speed_of_def dist_from_center_def MAX_SPEED_def max_dist_val
        split: if_splits)
  have r1: "rod_fx s1 = rod_fx (setup_init notes cal)" "rod_fy s1 = rod_fy (setup_init notes cal)"
    and c1: "cal_ax s1 = fst cal" "cal_ay s1 = snd cal"
    using physics_step_frame [OF p] r0 c0 by simp_all
  have miss: "\<forall>i \<in> set [0..<8]. \<not> rod_hit (now inp) s1 i"
  proof
    fix i assume "i \<in> set [0..<8]"
    then have "i < 8" by simp
    from rod_dist_from_center [OF b1(1,2) this r1]
    show "\<not> rod_hit (now inp) s1 i" by (simp add: rod_hit_def HIT_DIST_def)
  qed
  have "check_rods (now inp) s1 = Some (s1, [])"
    unfolding check_rods_def by (rule rod_loop_all_miss [OF sp miss])
  with r have "s2 = s1" "ev = []" by simp_all
  with l b1 r1 c1 show ?thesis by simp
qed

lemma rest_run:
  assumes ball: "ball_x s = 0" "ball_y s = 0" "ball_vx s = 0" "ball_vy s = 0"
    and rods: "rod_fx s = rod_fx (setup_init notes cal)" "rod_fy s = rod_fy (setup_init notes cal)"
    and cal: "cal_ax s = fst cal" "cal_ay s = snd cal"
    and inp: "\<forall>inp \<in> set inps. accel inp = cal \<and> (btnB inp \<longrightarrow> cal_sample inp = cal)"
  shows "\<exists>s'. run s inps = Some (s', []) \<and>
           ball_x s' = 0 \<and> ball_y s' = 0 \<and> ball_vx s' = 0 \<and> ball_vy s' = 0 \<and>
           rod_fx s' = rod_fx (setup_init notes cal) \<and> rod_fy s' = rod_fy (setup_init notes cal)"
  using assms
proof (induction inps arbitrary: s)
  case Nil
  then show ?case by simp
next
  case (Cons inp inps)
  from Cons.prems(9) have i1: "accel inp = cal" "btnB inp \<longrightarrow> cal_sample inp = cal"
    and rest: "\<forall>inp \<in> set inps. accel inp = cal \<and> (btnB inp \<longrightarrow> cal_sample inp = cal)"
    by simp_all
  from rest_tick [OF Cons.prems(1-8) i1]
  obtain s1 where l: "loop inp s = Some (s1, [])"
    and s1: "ball_x s1 = 0" "ball_y s1 = 0" "ball_vx s1 = 0" "ball_vy s1 = 0"
      "rod_fx s1 = rod_fx (setup_init notes cal)" "rod_fy s1 = rod_fy (setup_init notes cal)"
      "cal_ax s1 = fst cal" "cal_ay s1 = snd cal"
    by blast
  from Cons.IH [OF s1 rest] l show ?case by auto
qed

subsection \<open>Where \<^verbatim>\<open>setup()\<close> puts the rods\<close>


lemma sin_series6:
  fixes x :: real
  shows "(\<Sum>m<6. sin_coeff m * x ^ m) = x - x ^ 3 / 6 + x ^ 5 / 120"
  by (simp add: lessThan_Suc eval_nat_numeral sin_coeff_Suc cos_coeff_Suc)

lemma sin_h_bounds: "7067 / 10000 \<le> sin hstep" "sin hstep \<le> 7075 / 10000"
proof -
  have "\<bar>sin hstep - (\<Sum>m<6. sin_coeff m * hstep ^ m)\<bar> \<le> inverse (fact 6) * \<bar>hstep\<bar> ^ 6"
    by (rule Maclaurin_sin_bound)
  then have b: "\<bar>sin hstep - (hstep - hstep ^ 3 / 6 + hstep ^ 5 / 120)\<bar> \<le> hstep ^ 6 / 720"
    unfolding sin_series6 by (simp add: hstep_def fact_numeral)
  have lo: "7067 / 10000 \<le> (hstep - hstep ^ 3 / 6 + hstep ^ 5 / 120) - hstep ^ 6 / 720"
    by (simp add: hstep_def power_divide)
  have hi: "(hstep - hstep ^ 3 / 6 + hstep ^ 5 / 120) + hstep ^ 6 / 720 \<le> 7075 / 10000"
    by (simp add: hstep_def power_divide)
  from b lo show "7067 / 10000 \<le> sin hstep" by linarith
  from b hi show "sin hstep \<le> 7075 / 10000" by linarith
qed

lemma cos_h_bounds: "7067 / 10000 \<le> cos hstep" "cos hstep \<le> 7076 / 10000"
proof -
  have pos: "0 < cos hstep"
  proof (rule cos_gt_zero)
    show "0 < hstep" by (simp add: hstep_def)
    have "hstep < 1" by (simp add: hstep_def)
    also have "1 \<le> pi / 2" using pi_ge_two by simp
    finally show "hstep < pi / 2" .
  qed
  have sq: "cos hstep * cos hstep = 1 - sin hstep * sin hstep"
    using sin_cos_squared_add [of hstep] by (simp add: power2_eq_square)
  have s2lo: "(7067 / 10000) * (7067 / 10000) \<le> sin hstep * sin hstep"
    by (rule mult_mono) (use sin_h_bounds in simp_all)
  have s2hi: "sin hstep * sin hstep \<le> (7075 / 10000) * (7075 / 10000)"
    by (rule mult_mono) (use sin_h_bounds in simp_all)
  show "7067 / 10000 \<le> cos hstep"
  proof (rule ccontr)
    assume "\<not> 7067 / 10000 \<le> cos hstep"
    then have "cos hstep < 7067 / 10000" by simp
    with pos have "cos hstep * cos hstep < (7067 / 10000) * (7067 / 10000)"
      by (intro mult_strict_mono) simp_all
    with sq s2hi show False by simp
  qed
  show "cos hstep \<le> 7076 / 10000"
  proof (rule ccontr)
    assume "\<not> cos hstep \<le> 7076 / 10000"
    then have "7076 / 10000 < cos hstep" by simp
    then have "(7076 / 10000) * (7076 / 10000) < cos hstep * cos hstep"
      by (intro mult_strict_mono) simp_all
    with sq s2lo show False by simp
  qed
qed


lemma mult_enclosure:
  fixes x y :: real
  assumes "0 \<le> a" "a \<le> x" "x \<le> b" "0 \<le> c" "c \<le> y" "y \<le> d"
  shows "a * c \<le> x * y" and "x * y \<le> b * d"
proof -
  show "a * c \<le> x * y" by (rule mult_mono) (use assms in simp_all)
  show "x * y \<le> b * d" by (rule mult_mono) (use assms in simp_all)
qed

lemma small_mult:
  fixes x y :: real
  assumes "\<bar>x\<bar> \<le> e" "\<bar>y\<bar> \<le> 1"
  shows "\<bar>x * y\<bar> \<le> e"
proof -
  have "\<bar>x * y\<bar> = \<bar>x\<bar> * \<bar>y\<bar>" by (rule abs_mult)
  also have "\<dots> \<le> e * 1"
    by (rule mult_mono) (use assms in simp_all)
  finally show ?thesis by simp
qed

lemma trig_2h:
  "\<bar>cos (2 * hstep)\<bar> \<le> 14 / 10000"
  "9988 / 10000 \<le> sin (2 * hstep)"
proof -
  note c = cos_h_bounds and s = sin_h_bounds
  have cc: "(7067 / 10000) * (7067 / 10000) \<le> cos hstep * cos hstep"
    "cos hstep * cos hstep \<le> (7076 / 10000) * (7076 / 10000)"
    using mult_enclosure [OF _ c _ c] by simp_all
  have "cos (2 * hstep) = 2 * (cos hstep * cos hstep) - 1"
    by (simp add: cos_double_cos power2_eq_square)
  with cc show "\<bar>cos (2 * hstep)\<bar> \<le> 14 / 10000" by linarith
  have sc: "(7067 / 10000) * (7067 / 10000) \<le> sin hstep * cos hstep"
    using mult_enclosure(1) [OF _ s _ c] by simp
  have "sin (2 * hstep) = 2 * (sin hstep * cos hstep)"
    by (simp add: sin_double)
  with sc show "9988 / 10000 \<le> sin (2 * hstep)" by linarith
qed

lemma trig_3h:
  "- 7089 / 10000 \<le> cos (2 * hstep + hstep)" "cos (2 * hstep + hstep) \<le> - 7044 / 10000"
  "7044 / 10000 \<le> sin (2 * hstep + hstep)" "sin (2 * hstep + hstep) \<le> 7090 / 10000"
proof -
  note c = cos_h_bounds and s = sin_h_bounds
  have s2: "9988 / 10000 \<le> sin (2 * hstep)" "sin (2 * hstep) \<le> 1"
    using trig_2h(2) by simp_all
  have a: "\<bar>cos (2 * hstep) * cos hstep\<bar> \<le> 14 / 10000"
    by (rule small_mult [OF trig_2h(1)]) simp
  have b: "\<bar>cos (2 * hstep) * sin hstep\<bar> \<le> 14 / 10000"
    by (rule small_mult [OF trig_2h(1)]) simp
  have ss: "(9988 / 10000) * (7067 / 10000) \<le> sin (2 * hstep) * sin hstep"
    "sin (2 * hstep) * sin hstep \<le> 1 * (7075 / 10000)"
    using mult_enclosure [OF _ s2 _ s] by simp_all
  have sc: "(9988 / 10000) * (7067 / 10000) \<le> sin (2 * hstep) * cos hstep"
    "sin (2 * hstep) * cos hstep \<le> 1 * (7076 / 10000)"
    using mult_enclosure [OF _ s2 _ c] by simp_all
  have C: "cos (2 * hstep + hstep) = cos (2 * hstep) * cos hstep - sin (2 * hstep) * sin hstep"
    by (rule cos_add)
  have S: "sin (2 * hstep + hstep) = sin (2 * hstep) * cos hstep + cos (2 * hstep) * sin hstep"
    by (rule sin_add)
  from a ss show "- 7089 / 10000 \<le> cos (2 * hstep + hstep)"
    "cos (2 * hstep + hstep) \<le> - 7044 / 10000"
    unfolding C by linarith+
  from b sc show "7044 / 10000 \<le> sin (2 * hstep + hstep)"
    "sin (2 * hstep + hstep) \<le> 7090 / 10000"
    unfolding S by linarith+
qed

lemma trig_4h:
  "- 1 \<le> cos (2 * (2 * hstep))" "cos (2 * (2 * hstep)) \<le> - 9999 / 10000"
  "\<bar>sin (2 * (2 * hstep))\<bar> \<le> 28 / 10000"
proof -
  show "- 1 \<le> cos (2 * (2 * hstep))" by simp
  have "\<bar>cos (2 * hstep) * cos (2 * hstep)\<bar> \<le> (14 / 10000) * (14 / 10000)"
    unfolding abs_mult by (rule mult_mono) (use trig_2h(1) in simp_all)
  moreover have "cos (2 * (2 * hstep)) = 2 * (cos (2 * hstep) * cos (2 * hstep)) - 1"
    by (simp only: cos_double_cos [of "2 * hstep"] power2_eq_square)
  ultimately show "cos (2 * (2 * hstep)) \<le> - 9999 / 10000" by linarith
  have "\<bar>cos (2 * hstep) * sin (2 * hstep)\<bar> \<le> 14 / 10000"
    by (rule small_mult [OF trig_2h(1)]) simp
  moreover have "sin (2 * (2 * hstep)) = 2 * (cos (2 * hstep) * sin (2 * hstep))"
    by (subst sin_double [of "2 * hstep"]) simp
  ultimately show "\<bar>sin (2 * (2 * hstep))\<bar> \<le> 28 / 10000" by linarith
qed

lemma trig_5h:
  "- 7104 / 10000 \<le> cos (2 * (2 * hstep) + hstep)" "cos (2 * (2 * hstep) + hstep) \<le> - 7038 / 10000"
  "- 7104 / 10000 \<le> sin (2 * (2 * hstep) + hstep)" "sin (2 * (2 * hstep) + hstep) \<le> - 7038 / 10000"
proof -
  note c = cos_h_bounds and s = sin_h_bounds
  have m: "9999 / 10000 \<le> - cos (2 * (2 * hstep))" "- cos (2 * (2 * hstep)) \<le> 1"
    using trig_4h(1,2) by simp_all
  have a: "\<bar>sin (2 * (2 * hstep)) * sin hstep\<bar> \<le> 28 / 10000"
    by (rule small_mult [OF trig_4h(3)]) simp
  have b: "\<bar>sin (2 * (2 * hstep)) * cos hstep\<bar> \<le> 28 / 10000"
    by (rule small_mult [OF trig_4h(3)]) simp
  have mc: "(9999 / 10000) * (7067 / 10000) \<le> (- cos (2 * (2 * hstep))) * cos hstep"
    "(- cos (2 * (2 * hstep))) * cos hstep \<le> 1 * (7076 / 10000)"
    using mult_enclosure [OF _ m _ c] by simp_all
  have ms: "(9999 / 10000) * (7067 / 10000) \<le> (- cos (2 * (2 * hstep))) * sin hstep"
    "(- cos (2 * (2 * hstep))) * sin hstep \<le> 1 * (7075 / 10000)"
    using mult_enclosure [OF _ m _ s] by simp_all
  have C: "cos (2 * (2 * hstep) + hstep)
        = - ((- cos (2 * (2 * hstep))) * cos hstep) - sin (2 * (2 * hstep)) * sin hstep"
    by (subst cos_add) simp
  have S: "sin (2 * (2 * hstep) + hstep)
        = sin (2 * (2 * hstep)) * cos hstep - (- cos (2 * (2 * hstep))) * sin hstep"
    by (subst sin_add) simp
  from a mc show "- 7104 / 10000 \<le> cos (2 * (2 * hstep) + hstep)"
    "cos (2 * (2 * hstep) + hstep) \<le> - 7038 / 10000"
    unfolding C by linarith+
  from b ms show "- 7104 / 10000 \<le> sin (2 * (2 * hstep) + hstep)"
    "sin (2 * (2 * hstep) + hstep) \<le> - 7038 / 10000"
    unfolding S by linarith+
qed


lemma rod_angles:
  "rod_angle 0 = - (2 * hstep)" "rod_angle 1 = - hstep" "rod_angle 2 = 0" "rod_angle 3 = hstep"
  "rod_angle 4 = 2 * hstep" "rod_angle 5 = 2 * hstep + hstep" "rod_angle 6 = 2 * (2 * hstep)"
  "rod_angle 7 = 2 * (2 * hstep) + hstep" "rod_angle (Suc 0) = - hstep"
  by (simp_all add: rod_angle_def hstep_def)

lemma setup_rod_enclosure:
  assumes "rod_fx s = rod_fx (setup_init n c)" "rod_fy s = rod_fy (setup_init n c)"
  shows "\<bar>rod_fx s ! 0 - 0\<bar> \<le> 1 / 4" "\<bar>rod_fy s ! 0 - (- 55)\<bar> \<le> 1 / 4"
    and "\<bar>rod_fx s ! 1 - 3889 / 100\<bar> \<le> 1 / 4" "\<bar>rod_fy s ! 1 - (- 3889 / 100)\<bar> \<le> 1 / 4"
    and "rod_fx s ! 2 = 55" "rod_fy s ! 2 = 0"
    and "\<bar>rod_fx s ! 3 - 3889 / 100\<bar> \<le> 1 / 4" "\<bar>rod_fy s ! 3 - 3889 / 100\<bar> \<le> 1 / 4"
    and "\<bar>rod_fx s ! 4 - 0\<bar> \<le> 1 / 4" "\<bar>rod_fy s ! 4 - 55\<bar> \<le> 1 / 4"
    and "\<bar>rod_fx s ! 5 - (- 3889 / 100)\<bar> \<le> 1 / 4" "\<bar>rod_fy s ! 5 - 3889 / 100\<bar> \<le> 1 / 4"
    and "\<bar>rod_fx s ! 6 - (- 55)\<bar> \<le> 1 / 4" "\<bar>rod_fy s ! 6 - 0\<bar> \<le> 1 / 4"
    and "\<bar>rod_fx s ! 7 - (- 3889 / 100)\<bar> \<le> 1 / 4" "\<bar>rod_fy s ! 7 - (- 3889 / 100)\<bar> \<le> 1 / 4"
proof -
  have x: "rod_fx s ! i = cos (rod_angle i) * 55" and y: "rod_fy s ! i = sin (rod_angle i) * 55"
    if "i < 8" for i
    using that by (simp_all add: assms setup_rod_nth)
  note c = cos_h_bounds and sn = sin_h_bounds
  have s2: "sin (2 * hstep) \<le> 1" by simp
  have p0: "rod_fx s ! 0 = cos (2 * hstep) * 55" "rod_fy s ! 0 = - sin (2 * hstep) * 55"
    by (simp_all add: x y rod_angles)
  have p1: "rod_fx s ! 1 = cos hstep * 55" "rod_fy s ! 1 = - sin hstep * 55"
    by (simp_all add: x y rod_angles)
  have p3: "rod_fx s ! 3 = cos hstep * 55" "rod_fy s ! 3 = sin hstep * 55"
    by (simp_all add: x y rod_angles)
  have p4: "rod_fx s ! 4 = cos (2 * hstep) * 55" "rod_fy s ! 4 = sin (2 * hstep) * 55"
    by (simp_all add: x y rod_angles)
  have p5: "rod_fx s ! 5 = cos (2 * hstep + hstep) * 55" "rod_fy s ! 5 = sin (2 * hstep + hstep) * 55"
    by (simp_all add: x y rod_angles del: mult_2 distrib_right_numeral distrib_left_numeral)
  have p6: "rod_fx s ! 6 = cos (2 * (2 * hstep)) * 55" "rod_fy s ! 6 = sin (2 * (2 * hstep)) * 55"
    by (simp_all add: x y rod_angles del: mult_2 distrib_right_numeral distrib_left_numeral)
  have p7: "rod_fx s ! 7 = cos (2 * (2 * hstep) + hstep) * 55"
    "rod_fy s ! 7 = sin (2 * (2 * hstep) + hstep) * 55"
    by (simp_all add: x y rod_angles del: mult_2 distrib_right_numeral distrib_left_numeral)
  show "\<bar>rod_fx s ! 0 - 0\<bar> \<le> 1 / 4" using trig_2h(1) unfolding p0 by linarith
  show "\<bar>rod_fy s ! 0 - (- 55)\<bar> \<le> 1 / 4" using trig_2h(2) s2 unfolding p0 by linarith
  show "\<bar>rod_fx s ! 1 - 3889 / 100\<bar> \<le> 1 / 4" using c unfolding p1 by linarith
  show "\<bar>rod_fy s ! 1 - (- 3889 / 100)\<bar> \<le> 1 / 4" using sn unfolding p1 by linarith
  show "rod_fx s ! 2 = 55" by (simp add: x rod_angles)
  show "rod_fy s ! 2 = 0" by (simp add: y rod_angles)
  show "\<bar>rod_fx s ! 3 - 3889 / 100\<bar> \<le> 1 / 4" using c unfolding p3 by linarith
  show "\<bar>rod_fy s ! 3 - 3889 / 100\<bar> \<le> 1 / 4" using sn unfolding p3 by linarith
  show "\<bar>rod_fx s ! 4 - 0\<bar> \<le> 1 / 4" using trig_2h(1) unfolding p4 by linarith
  show "\<bar>rod_fy s ! 4 - 55\<bar> \<le> 1 / 4" using trig_2h(2) s2 unfolding p4 by linarith
  show "\<bar>rod_fx s ! 5 - (- 3889 / 100)\<bar> \<le> 1 / 4" using trig_3h(1,2) unfolding p5 by linarith
  show "\<bar>rod_fy s ! 5 - 3889 / 100\<bar> \<le> 1 / 4" using trig_3h(3,4) unfolding p5 by linarith
  show "\<bar>rod_fx s ! 6 - (- 55)\<bar> \<le> 1 / 4" using trig_4h(1,2) unfolding p6 by linarith
  show "\<bar>rod_fy s ! 6 - 0\<bar> \<le> 1 / 4" using trig_4h(3) unfolding p6 by linarith
  show "\<bar>rod_fx s ! 7 - (- 3889 / 100)\<bar> \<le> 1 / 4" using trig_5h(1,2) unfolding p7 by linarith
  show "\<bar>rod_fy s ! 7 - (- 3889 / 100)\<bar> \<le> 1 / 4" using trig_5h(3,4) unfolding p7 by linarith
qed

subsection \<open>Strikes of one tick\<close>

lemma filter_eq_upt:
  "filter (\<lambda>k. k = i) (filter P [0..<n]) = (if i < n \<and> P i then [i] else [])"
proof (induction n)
  case 0
  then show ?case by simp
next
  case (Suc n)
  then show ?case by auto
qed

lemma rod_events_count:
  assumes "map rod ev = filter P [0..<n]"
  shows "length (filter (\<lambda>e. rod e = i) ev) = (if i < n \<and> P i then 1 else 0)"
proof -
  have "length (filter (\<lambda>e. rod e = i) ev) = length (filter (\<lambda>k. k = i) (map rod ev))"
    by (simp add: filter_map comp_def)
  also have "\<dots> = (if i < n \<and> P i then 1 else 0)"
    by (simp only: assms filter_eq_upt) simp
  finally show ?thesis .
qed

lemma debounce_val: "(word_of_int ROD_DEBOUNCE :: u32) = 80"
  by (simp add: ROD_DEBOUNCE_def)

lemma loop_rod:
  assumes l: "loop inp s = Some (s', ev)"
  obtains s1 where "physics_step inp (handle_buttons inp s) = Some s1"
    and "speed_of s1 \<le> MAX_SPEED"
    and "map rod ev = filter (rod_hit (now inp) s1) [0..<8]"
    and "rod_last_hit s1 = rod_last_hit s" and "rod_glow s1 = rod_glow s"
    and "\<And>i. i < 8 \<Longrightarrow> i < length (rod_last_hit s) \<Longrightarrow>
           rod_last_hit s' ! i = (if rod_hit (now inp) s1 i then now inp else rod_last_hit s ! i)"
    and "\<And>i. i < 8 \<Longrightarrow> i < length (rod_glow s) \<Longrightarrow>
           unat (rod_glow s' ! i) = (if rod_hit (now inp) s1 i then 15 else unat (rod_glow s ! i)) - 1"
    and "length (rod_last_hit s') = length (rod_last_hit s)"
    and "length (rod_glow s') = length (rod_glow s)"
    and "\<forall>e \<in> set ev. 30 \<le> unat (velocity e) \<and> unat (velocity e) \<le> 127"
    and "\<forall>e \<in> set ev. pitch e = chime_notes s ! nat (current_chime (handle_buttons inp s)) ! rod e"
proof -
  obtain s1 s2 ev' where p: "physics_step inp (handle_buttons inp s) = Some s1"
    and sp: "speed_of s1 \<le> MAX_SPEED"
    and r: "check_rods (now inp) s1 = Some (s2, ev')"
    and l': "loop inp s = Some (drawUpdate s2, ev')"
    by (rule loop_decomp)
  from l l' have s': "s' = drawUpdate s2" and ev: "ev' = ev" by simp_all
  from r have r': "rod_loop (now inp) [0..<8] s1 = Some (s2, ev)"
    by (simp add: check_rods_def ev)
  have d: "distinct [0..<8::nat]" by simp
  note fr = physics_step_frame [OF p]
  have a: "map rod ev = filter (rod_hit (now inp) s1) [0..<8]"
    by (rule rod_loop_rods [OF sp d r'])
  note arr = rod_loop_arrays [OF sp d r']
  have b: "rod_last_hit s' ! i = (if rod_hit (now inp) s1 i then now inp else rod_last_hit s ! i)"
    if "i < 8" "i < length (rod_last_hit s)" for i
    using that by (simp add: s' arr(1) fold_update_nth fr)
  have len8: "length (rod_glow s2) = length (rod_glow s)"
    by (simp add: arr(2) fr)
  have c: "unat (rod_glow s' ! i) = (if rod_hit (now inp) s1 i then 15 else unat (rod_glow s ! i)) - 1"
    if "i < 8" "i < length (rod_glow s)" for i
  proof -
    have g2: "rod_glow s2 ! i = (if rod_hit (now inp) s1 i then 15 else rod_glow s ! i)"
      using that by (simp add: arr(2) fold_update_nth fr)
    have "rod_glow (drawUpdate s2) ! i
            = (if rod_glow s2 ! i > 0 then rod_glow s2 ! i - 1 else rod_glow s2 ! i)"
      using that len8 by (simp add: drawUpdate_def glow_fold_decay_nth)
    then have "unat (rod_glow s' ! i) = unat (rod_glow s2 ! i) - 1"
      unfolding s' by (simp only: unat_decrement)
    then show ?thesis by (simp add: g2)
  qed
  have e: "length (rod_last_hit s') = length (rod_last_hit s)"
    by (simp add: s' arr(1) fr)
  have f: "length (rod_glow s') = length (rod_glow s)"
    by (simp add: s' len8)
  have g: "\<forall>e \<in> set ev. 30 \<le> unat (velocity e) \<and> unat (velocity e) \<le> 127"
    by (rule rod_loop_velocity [OF sp r'])
  have h: "\<forall>e \<in> set ev. pitch e = chime_notes s ! nat (current_chime (handle_buttons inp s)) ! rod e"
    using rod_loop_pitch [OF sp r'] by (simp add: fr)
  have fr4: "rod_last_hit s1 = rod_last_hit s" and fr5: "rod_glow s1 = rod_glow s"
    using fr(4,5) by simp_all
  from p sp a fr4 fr5 b c e f g h show thesis by (rule that)
qed

lemma rod_loop_velocity_form:
  assumes "speed_of s \<le> MAX_SPEED" "rod_loop t is s = Some (s', ev)"
  shows "\<forall>e \<in> set ev. \<exists>hs. 0 \<le> hs \<and> hs \<le> MAX_SPEED \<and> note_velocity hs = Some (velocity e)"
  using assms
proof (induction "is" arbitrary: s s' ev)
  case Nil
  then show ?case by simp
next
  case (Cons i "is")
  have sp: "0 \<le> speed_of s" "speed_of s \<le> 45"
    using Cons.prems(1) by (simp_all add: speed_of_nonneg MAX_SPEED_def)
  show ?case
  proof (cases "rod_hit t s i")
    case True
    from Cons.prems(2) obtain ev2 where
      r: "rod_loop t is (struck t i s) = Some (s', ev2)" and
      e: "ev = \<lparr>rod = i, pitch = chime_notes s ! nat (current_chime s) ! i,
                  velocity = word_of_int (min 127 \<lfloor>30 + speed_of s * 5\<rfloor>)\<rparr> # ev2"
      by (auto simp: rod_loop_Cons_hit [OF Cons.prems(1) True] simp del: rod_loop.simps)
    have "\<exists>hs. 0 \<le> hs \<and> hs \<le> MAX_SPEED \<and>
            note_velocity hs = Some (word_of_int (min 127 \<lfloor>30 + speed_of s * 5\<rfloor>))"
      using note_velocity_eq [OF sp] sp(1) Cons.prems(1) by blast
    with Cons.IH [OF speed_struck_le [OF Cons.prems(1)] r]
    show ?thesis unfolding e by simp
  next
    case False
    from Cons.prems(2) have r: "rod_loop t is s = Some (s', ev)"
      by (simp add: rod_loop_Cons_miss [OF Cons.prems(1) False] del: rod_loop.simps)
    from Cons.IH [OF Cons.prems(1) r]
    show ?thesis .
  qed
qed

lemma float_to_u8_in_range:
  fixes r :: real
  assumes "0 \<le> r" "r < 256"
  shows "\<exists>v. float_to_u8 r = Some v \<and> int (unat v) = \<lfloor>r\<rfloor>"
proof -
  have lo: "0 \<le> \<lfloor>r\<rfloor>" using assms by simp
  have hi: "\<lfloor>r\<rfloor> \<le> 255" using assms by (simp add: floor_le_iff)
  have "uint (word_of_int \<lfloor>r\<rfloor> :: u8) = \<lfloor>r\<rfloor>"
    using lo hi by (simp add: uint_word_of_int take_bit_eq_mod)
  then have "int (unat (word_of_int \<lfloor>r\<rfloor> :: u8)) = \<lfloor>r\<rfloor>" by simp
  with lo hi assms show ?thesis
    by (simp add: float_to_u8_def trunc_real_nonneg)
qed

subsection \<open>The rod loop in closed form, and deciding hits\<close>

lemma rod_dist_struck [simp]: "rod_dist (struck t i s) j = rod_dist s j"
  by (simp add: rod_dist_def)

lemma expected_strikes_cong:
  assumes "\<forall>j \<in> set is. rod_hit t s' j = rod_hit t s j \<and> rod_dist s' j = rod_dist s j"
  shows "expected_strikes t s' v is = expected_strikes t s v is"
  using assms by (induction "is" arbitrary: v) simp_all

lemma rod_loop_strikes:
  assumes "speed_of s \<le> MAX_SPEED" "distinct is" "rod_loop t is s = Some (s', ev)"
  shows "map (\<lambda>e. (rod e, velocity e)) ev = expected_strikes t s (speed_of s) is"
  using assms
proof (induction "is" arbitrary: s s' ev)
  case Nil
  then show ?case by simp
next
  case (Cons i "is")
  from Cons.prems have d: "distinct is" and ni: "i \<notin> set is" by simp_all
  show ?case
  proof (cases "rod_hit t s i")
    case True
    have same: "\<forall>j \<in> set is. rod_hit t (struck t i s) j = rod_hit t s j
                  \<and> rod_dist (struck t i s) j = rod_dist s j"
    proof
      fix j assume "j \<in> set is"
      with ni have "j \<noteq> i" by blast
      then show "rod_hit t (struck t i s) j = rod_hit t s j
                  \<and> rod_dist (struck t i s) j = rod_dist s j"
        by (simp add: rod_hit_struck)
    qed
    from Cons.prems(3) obtain ev2 where
      r: "rod_loop t is (struck t i s) = Some (s', ev2)" and
      e: "ev = \<lparr>rod = i, pitch = chime_notes s ! nat (current_chime s) ! i,
                  velocity = word_of_int (min 127 \<lfloor>30 + speed_of s * 5\<rfloor>)\<rparr> # ev2"
      by (auto simp: rod_loop_Cons_hit [OF Cons.prems(1) True] simp del: rod_loop.simps)
    have "map (\<lambda>e. (rod e, velocity e)) ev2
            = expected_strikes t (struck t i s) (speed_of (struck t i s)) is"
      by (rule Cons.IH [OF speed_struck_le [OF Cons.prems(1)] d r])
    also have "\<dots> = expected_strikes t s (speed_of (struck t i s)) is"
      by (rule expected_strikes_cong [OF same])
    finally show ?thesis using True by (simp add: e speed_struck)
  next
    case False
    from Cons.prems(3) have r: "rod_loop t is s = Some (s', ev)"
      by (simp add: rod_loop_Cons_miss [OF Cons.prems(1) False] del: rod_loop.simps)
    from Cons.IH [OF Cons.prems(1) d r] show ?thesis using False by simp
  qed
qed

lemma sqrt_576: "sqrt 576 = 24"
  by (rule real_sqrt_unique) simp_all

lemma sq_abs_le:
  fixes u a :: real
  assumes "\<bar>u\<bar> \<le> a"
  shows "u * u \<le> a * a"
proof -
  have "u * u = \<bar>u\<bar> * \<bar>u\<bar>" by simp
  also have "\<dots> \<le> a * a" by (rule mult_mono) (use assms in simp_all)
  finally show ?thesis .
qed

lemma sq_abs_ge:
  fixes u a :: real
  assumes "0 \<le> a" "a \<le> \<bar>u\<bar>"
  shows "a * a \<le> u * u"
proof -
  have "a * a \<le> \<bar>u\<bar> * \<bar>u\<bar>" by (rule mult_mono) (use assms in simp_all)
  then show ?thesis by simp
qed

lemma rod_hit_far:
  assumes "\<bar>rod_fx s ! i - X\<bar> \<le> 1 / 4" "\<bar>rod_fy s ! i - Y\<bar> \<le> 1 / 4"
    and "97 / 4 \<le> \<bar>ball_x s - X\<bar> \<or> 97 / 4 \<le> \<bar>ball_y s - Y\<bar>"
  shows "\<not> rod_hit t s i"
proof -
  define dx where "dx = ball_x s - rod_fx s ! i"
  define dy where "dy = ball_y s - rod_fy s ! i"
  from assms have "24 \<le> \<bar>dx\<bar> \<or> 24 \<le> \<bar>dy\<bar>"
    unfolding dx_def dy_def by linarith
  then have "24 * 24 \<le> dx * dx \<or> 24 * 24 \<le> dy * dy"
    using sq_abs_ge [of 24 dx] sq_abs_ge [of 24 dy] by auto
  moreover have "0 \<le> dx * dx" "0 \<le> dy * dy" by simp_all
  ultimately have "576 \<le> dx * dx + dy * dy" by linarith
  then have "sqrt 576 \<le> sqrt (dx * dx + dy * dy)" by (rule real_sqrt_le_mono)
  then show ?thesis
    by (simp add: rod_hit_def rod_dist_def Let_def dx_def dy_def sqrt_576 HIT_DIST_def)
qed

lemma rod_hit_near:
  assumes "\<bar>rod_fx s ! i - X\<bar> \<le> 1 / 4" "\<bar>rod_fy s ! i - Y\<bar> \<le> 1 / 4"
    and "(\<bar>ball_x s - X\<bar> + 1 / 4) * (\<bar>ball_x s - X\<bar> + 1 / 4)
           + (\<bar>ball_y s - Y\<bar> + 1 / 4) * (\<bar>ball_y s - Y\<bar> + 1 / 4) < 576"
    and "t - rod_last_hit s ! i > 80"
  shows "rod_hit t s i"
proof -
  define dx where "dx = ball_x s - rod_fx s ! i"
  define dy where "dy = ball_y s - rod_fy s ! i"
  have "\<bar>dx\<bar> \<le> \<bar>ball_x s - X\<bar> + 1 / 4" "\<bar>dy\<bar> \<le> \<bar>ball_y s - Y\<bar> + 1 / 4"
    using assms(1,2) unfolding dx_def dy_def by linarith+
  from sq_abs_le [OF this(1)] sq_abs_le [OF this(2)] assms(3)
  have "dx * dx + dy * dy < 576" by linarith
  then have "sqrt (dx * dx + dy * dy) < sqrt 576" by (rule real_sqrt_less_mono)
  with assms(4) show ?thesis
    by (simp add: rod_hit_def rod_dist_def Let_def dx_def dy_def sqrt_576 HIT_DIST_def debounce_val)
qed

lemma rod_dist_apart:
  assumes "\<bar>rod_fx s ! i - X\<bar> \<le> 1 / 4" "\<bar>rod_fy s ! i - Y\<bar> \<le> 1 / 4"
    and "1 \<le> \<bar>ball_x s - X\<bar> \<or> 1 \<le> \<bar>ball_y s - Y\<bar>"
  shows "rod_dist s i > 1 / 10"
proof -
  define dx where "dx = ball_x s - rod_fx s ! i"
  define dy where "dy = ball_y s - rod_fy s ! i"
  from assms have "1 / 2 \<le> \<bar>dx\<bar> \<or> 1 / 2 \<le> \<bar>dy\<bar>"
    unfolding dx_def dy_def by linarith
  then have "1 / 4 \<le> dx * dx \<or> 1 / 4 \<le> dy * dy"
    using sq_abs_ge [of "1 / 2" dx] sq_abs_ge [of "1 / 2" dy] by auto
  moreover have "0 \<le> dx * dx" "0 \<le> dy * dy" by simp_all
  ultimately have "1 / 4 \<le> dx * dx + dy * dy" by linarith
  then have "(1 / 10)\<^sup>2 < dx * dx + dy * dy" by (simp add: power2_eq_square)
  then have "1 / 10 < sqrt (dx * dx + dy * dy)" by (rule real_less_rsqrt)
  then show ?thesis
    by (simp add: rod_dist_def Let_def dx_def dy_def)
qed

subsection \<open>Evaluating concrete ticks\<close>

lemma handle_buttons_idle [simp]: "handle_buttons (idle_tick t) s = s"
  by (simp add: handle_buttons_def idle_tick_def)

lemma now_idle [simp]: "now (idle_tick t) = t"
  by (simp add: idle_tick_def)

lemma upt_0_8: "[0..<8] = [0, 1, 2, 3, 4, 5, 6, 7::nat]"
  by code_simp

lemma less_8_cases:
  fixes i :: nat
  assumes "i < 8"
  shows "i = 0 \<or> i = 1 \<or> i = 2 \<or> i = 3 \<or> i = 4 \<or> i = 5 \<or> i = 6 \<or> i = 7"
  using assms by arith

lemma sqrt_le_from_sq:
  fixes x b :: real
  assumes "x \<le> b * b" "0 \<le> b"
  shows "sqrt x \<le> b"
proof -
  have "sqrt x \<le> sqrt (b * b)" by (rule real_sqrt_le_mono [OF assms(1)])
  also have "\<dots> = b" using assms(2) by simp
  finally show ?thesis .
qed

lemma sqrt_from_sq:
  fixes x b :: real
  assumes "b * b = x" "0 \<le> b"
  shows "sqrt x = b"
  using assms by (intro real_sqrt_unique) (simp_all add: power2_eq_square)

lemma enclosure_nominal:
  assumes "rod_fx s = rod_fx power_on" "rod_fy s = rod_fy power_on" "i < 8"
  shows "\<bar>rod_fx s ! i - fst (nominal_rods ! i)\<bar> \<le> 1 / 4"
    and "\<bar>rod_fy s ! i - snd (nominal_rods ! i)\<bar> \<le> 1 / 4"
proof -
  note enc = setup_rod_enclosure [OF assms(1,2) [unfolded power_on_def]]
  from less_8_cases [OF assms(3)]
  show "\<bar>rod_fx s ! i - fst (nominal_rods ! i)\<bar> \<le> 1 / 4"
    using enc(1,3,5,7,9,11,13,15) by (elim disjE) (simp_all add: nominal_rods_def)
  from less_8_cases [OF assms(3)]
  show "\<bar>rod_fy s ! i - snd (nominal_rods ! i)\<bar> \<le> 1 / 4"
    using enc(2,4,6,8,10,12,14,16) by (elim disjE) (simp_all add: nominal_rods_def)
qed

lemma far_not_near: "far_rod i x y \<Longrightarrow> \<not> near_rod i x y"
proof
  assume f: "far_rod i x y" and n: "near_rod i x y"
  define a where "a = \<bar>x - fst (nominal_rods ! i)\<bar> + 1 / 4"
  define b where "b = \<bar>y - snd (nominal_rods ! i)\<bar> + 1 / 4"
  from n have lt: "a * a + b * b < 576" by (simp add: near_rod_def a_def b_def)
  from f have "24 \<le> \<bar>a\<bar> \<or> 24 \<le> \<bar>b\<bar>" unfolding far_rod_def a_def b_def by linarith
  then have "24 * 24 \<le> a * a \<or> 24 * 24 \<le> b * b"
    using sq_abs_ge [of 24 a] sq_abs_ge [of 24 b] by auto
  moreover have "0 \<le> a * a" "0 \<le> b * b" by simp_all
  ultimately show False using lt by linarith
qed

lemma rod_hit_decided:
  assumes g: "rod_fx s = rod_fx power_on" "rod_fy s = rod_fy power_on" and i: "i < 8"
    and d: "far_rod i (ball_x s) (ball_y s) \<or> near_rod i (ball_x s) (ball_y s)"
  shows "rod_hit t s i \<longleftrightarrow> near_rod i (ball_x s) (ball_y s) \<and> 80 < t - rod_last_hit s ! i"
proof (cases "near_rod i (ball_x s) (ball_y s)")
  case True
  note enc = enclosure_nominal [OF g i]
  show ?thesis
  proof
    assume "rod_hit t s i"
    from rod_hit_def [THEN iffD1, OF this] True
    show "near_rod i (ball_x s) (ball_y s) \<and> 80 < t - rod_last_hit s ! i"
      by (simp add: debounce_val)
  next
    assume a: "near_rod i (ball_x s) (ball_y s) \<and> 80 < t - rod_last_hit s ! i"
    show "rod_hit t s i"
      by (rule rod_hit_near [OF enc]) (use a in \<open>simp_all add: near_rod_def\<close>)
  qed
next
  case False
  with d have f: "far_rod i (ball_x s) (ball_y s)" by simp
  note enc = enclosure_nominal [OF g i]
  have "\<not> rod_hit t s i"
    by (rule rod_hit_far [OF enc]) (use f in \<open>simp add: far_rod_def\<close>)
  with False show ?thesis by simp
qed

lemma rod_dist_near:
  assumes g: "rod_fx s = rod_fx power_on" "rod_fy s = rod_fy power_on" and i: "i < 8"
    and n: "near_rod i (ball_x s) (ball_y s)"
  shows "rod_dist s i > 1 / 10"
  by (rule rod_dist_apart [OF enclosure_nominal [OF g i]]) (use n in \<open>simp add: near_rod_def\<close>)

lemma expected_nominal:
  assumes g: "rod_fx s = rod_fx power_on" "rod_fy s = rod_fy power_on"
    and d: "\<forall>i \<in> set is. i < 8 \<and> (far_rod i (ball_x s) (ball_y s) \<or> near_rod i (ball_x s) (ball_y s))"
  shows "expected_strikes t s v is = nominal_strikes t (ball_x s) (ball_y s) (rod_last_hit s) v is"
  using d
proof (induction "is" arbitrary: v)
  case Nil
  then show ?case by simp
next
  case (Cons i "is")
  from Cons.prems have i: "i < 8"
    and di: "far_rod i (ball_x s) (ball_y s) \<or> near_rod i (ball_x s) (ball_y s)"
    and rest: "\<forall>i \<in> set is. i < 8 \<and> (far_rod i (ball_x s) (ball_y s) \<or> near_rod i (ball_x s) (ball_y s))"
    by simp_all
  note h = rod_hit_decided [OF g i di]
  show ?case
  proof (cases "rod_hit t s i")
    case True
    with h have n: "near_rod i (ball_x s) (ball_y s)"
      and c: "near_rod i (ball_x s) (ball_y s) \<and> 80 < t - rod_last_hit s ! i" by simp_all
    have far: "(1 / 10 < rod_dist s i) = True"
      using rod_dist_near [OF g i n] by simp
    show ?thesis
      by (simp only: expected_strikes.simps nominal_strikes.simps True c far if_True
          Cons.IH [OF rest] simp_thms)
  next
    case False
    with h have c: "\<not> (near_rod i (ball_x s) (ball_y s) \<and> 80 < t - rod_last_hit s ! i)"
      by simp
    show ?thesis
      by (simp only: expected_strikes.simps nominal_strikes.simps False c if_False
          Cons.IH [OF rest] simp_thms)
  qed
qed

lemma handle_buttons_tilt [simp]: "handle_buttons (tilt_tick ax ay t) s = s"
  by (simp add: handle_buttons_def tilt_tick_def)

lemma now_tilt [simp]: "now (tilt_tick ax ay t) = t"
  by (simp add: tilt_tick_def)

lemma idle_is_tilt: "idle_tick t = tilt_tick 0 0 t"
  by (simp add: idle_tick_def tilt_tick_def)

lemma ball_at_power_on: "ball_at power_on 0 0 0 0 (replicate 8 0)"
  by (simp add: ball_at_def power_on_def setup_init_def)

lemma loop_strikes:
  obtains s1 s' ev where "physics_step inp (handle_buttons inp s) = Some s1"
    and "speed_of s1 \<le> MAX_SPEED"
    and "loop inp s = Some (s', ev)"
    and "map rod ev = filter (rod_hit (now inp) s1) [0..<8]"
    and "map (\<lambda>e. (rod e, velocity e)) ev = expected_strikes (now inp) s1 (speed_of s1) [0..<8]"
    and "\<forall>e \<in> set ev. pitch e = chime_notes s ! nat (current_chime (handle_buttons inp s)) ! rod e"
    and "\<And>i. i < 8 \<Longrightarrow> i < length (rod_last_hit s) \<Longrightarrow>
           rod_last_hit s' ! i = (if rod_hit (now inp) s1 i then now inp else rod_last_hit s ! i)"
    and "length (rod_last_hit s') = length (rod_last_hit s)"
    and "length (rod_glow s') = length (rod_glow s)"
    and "ball_x s' = ball_x s1" and "ball_y s' = ball_y s1"
    and "rod_fx s' = rod_fx s" and "rod_fy s' = rod_fy s"
    and "cal_ax s' = cal_ax s1" and "cal_ay s' = cal_ay s1"
    and "chime_notes s' = chime_notes s" and "current_chime s' = current_chime s1"
proof -
  obtain s' ev where l: "loop inp s = Some (s', ev)" using loop_Some by blast
  obtain s1 s2 ev' where p: "physics_step inp (handle_buttons inp s) = Some s1"
    and sp: "speed_of s1 \<le> MAX_SPEED"
    and r: "check_rods (now inp) s1 = Some (s2, ev')"
    and l': "loop inp s = Some (drawUpdate s2, ev')"
    by (rule loop_decomp)
  from l l' r have r': "rod_loop (now inp) [0..<8] s1 = Some (s2, ev)" and s': "s' = drawUpdate s2"
    by (simp_all add: check_rods_def)
  have d: "distinct [0..<8::nat]" by simp
  have a: "map (\<lambda>e. (rod e, velocity e)) ev = expected_strikes (now inp) s1 (speed_of s1) [0..<8]"
    by (rule rod_loop_strikes [OF sp d r'])
  from l obtain s1' where p': "physics_step inp (handle_buttons inp s) = Some s1'"
    and b: "map rod ev = filter (rod_hit (now inp) s1') [0..<8]"
    and c: "\<forall>e \<in> set ev. pitch e = chime_notes s ! nat (current_chime (handle_buttons inp s)) ! rod e"
    and e: "\<And>i. i < 8 \<Longrightarrow> i < length (rod_last_hit s) \<Longrightarrow>
           rod_last_hit s' ! i = (if rod_hit (now inp) s1' i then now inp else rod_last_hit s ! i)"
    and f: "length (rod_last_hit s') = length (rod_last_hit s)"
    and g: "length (rod_glow s') = length (rod_glow s)"
    by (rule loop_rod) blast
  from p p' have eq: "s1' = s1" by simp
  from rod_loop_frame [OF sp, of "now inp" "[0..<8]"] r'
  have fr: "ball_x s2 = ball_x s1" "ball_y s2 = ball_y s1" "rod_fx s2 = rod_fx s1"
    "rod_fy s2 = rod_fy s1" "chime_notes s2 = chime_notes s1" "current_chime s2 = current_chime s1"
    "cal_ax s2 = cal_ax s1" "cal_ay s2 = cal_ay s1"
    by auto
  note pf = physics_step_frame [OF p]
  show thesis
    by (rule that [of s1 s' ev])
       (use p sp l a b c e f g eq in \<open>simp_all add: s' fr pf\<close>)
qed

lemma rod_loop_append:
  "rod_loop t (xs @ ys) s = do {
     (s1, e1) \<leftarrow> rod_loop t xs s;
     (s2, e2) \<leftarrow> rod_loop t ys s1;
     Some (s2, e1 @ e2)
   }"
proof (induction xs arbitrary: s)
  case Nil
  then show ?case by (cases "rod_loop t ys s") auto
next
  case (Cons x xs)
  show ?case
  proof (cases "check_rod t x s")
    case None
    then show ?thesis by simp
  next
    case (Some r)
    obtain s1 e1 where r: "r = (s1, e1)" by (cases r)
    show ?thesis
      by (cases "rod_loop t xs s1"; cases "rod_loop t ys (fst (the (rod_loop t xs s1)))")
         (auto simp: Some r Cons.IH split: bind_splits)
  qed
qed

lemma rod_loop_only:
  assumes sp: "speed_of s \<le> MAX_SPEED" and k: "k < 8" and h: "rod_hit t s k"
    and o: "\<forall>i<8. i \<noteq> k \<longrightarrow> \<not> rod_hit t s i"
  shows "rod_loop t [0..<8] s =
           Some (struck t k s,
                 [\<lparr>rod = k, pitch = chime_notes s ! nat (current_chime s) ! k,
                   velocity = word_of_int (min 127 \<lfloor>30 + speed_of s * 5\<rfloor>)\<rparr>])"
proof -
  have split: "[0..<8] = [0..<k] @ k # [Suc k..<8]"
    using k by (metis le0 upt_add_eq_append upt_conv_Cons le_add_diff_inverse less_imp_le_nat)
  have a: "rod_loop t [0..<k] s = Some (s, [])"
    by (rule rod_loop_all_miss [OF sp]) (use o k in auto)
  have b: "rod_loop t [Suc k..<8] (struck t k s) = Some (struck t k s, [])"
    by (rule rod_loop_all_miss [OF speed_struck_le [OF sp]])
       (use o in \<open>auto simp: rod_hit_struck\<close>)
  show ?thesis
    unfolding split rod_loop_append
    by (simp add: a rod_loop_Cons_hit [OF sp h] b del: rod_loop.simps)
qed

lemma tilt_physics:
  assumes at: "ball_at s x y vx vy hits"
    and vx': "vx' = (vx - ax * GRAVITY_SCALE * (2 / 100)) * FRICTION"
    and vy': "vy' = (vy + ay * GRAVITY_SCALE * (2 / 100)) * FRICTION"
    and v: "vx' * vx' + vy' * vy' \<le> 20 * 20"
    and p: "(x + vx') * (x + vx') + (y + vy') * (y + vy') \<le> 51 * 51"
  shows "\<exists>s1. physics_step (tilt_tick ax ay t) (handle_buttons (tilt_tick ax ay t) s) = Some s1
           \<and> ball_at s1 (x + vx') (y + vy') vx' vy' hits \<and> rod_glow s1 = rod_glow s"
proof -
  define s1 where "s1 = s\<lparr>ball_vx := vx', ball_vy := vy'\<rparr>"
  have uv: "update_velocity (tilt_tick ax ay t) s = s1"
    using at by (simp add: update_velocity_def tilt_tick_def s1_def ball_at_def vx' vy')
  have "speed_of s1 \<le> 20"
    unfolding speed_of_def s1_def using sqrt_le_from_sq [OF v] by simp
  then have cl: "clamp_speed s1 = Some s1"
    by (simp add: clamp_speed_eq MAX_SPEED_def)
  define s2 where "s2 = update_position s1"
  have xy: "ball_x s2 = x + vx'" "ball_y s2 = y + vy'"
    using at by (simp_all add: s2_def s1_def update_position_def ball_at_def)
  have "dist_from_center s2 \<le> 51"
    unfolding dist_from_center_def xy using sqrt_le_from_sq [OF p] by simp
  then have ct: "constrain_to_tube s2 = Some s2"
    by (simp add: constrain_to_tube_eq max_dist_val)
  have ps: "physics_step (tilt_tick ax ay t) (handle_buttons (tilt_tick ax ay t) s) = Some s2"
    by (simp add: physics_step_def uv cl ct [unfolded s2_def] s2_def)
  have "ball_at s2 (x + vx') (y + vy') vx' vy' hits"
    using at xy by (simp add: ball_at_def) (simp add: s2_def s1_def update_position_def)
  moreover have "rod_glow s2 = rod_glow s"
    by (simp add: s2_def s1_def update_position_def)
  ultimately show ?thesis using ps by blast
qed

lemma tick_strikes:
  assumes at: "ball_at s x y vx vy hits"
    and vx': "vx' = (vx - ax * GRAVITY_SCALE * (2 / 100)) * FRICTION"
    and vy': "vy' = (vy + ay * GRAVITY_SCALE * (2 / 100)) * FRICTION"
    and v: "vx' * vx' + vy' * vy' \<le> 20 * 20"
    and p: "(x + vx') * (x + vx') + (y + vy') * (y + vy') \<le> 51 * 51"
    and sp: "sp * sp = vx' * vx' + vy' * vy'" "0 \<le> sp"
    and dec: "\<forall>i<8. far_rod i (x + vx') (y + vy') \<or> near_rod i (x + vx') (y + vy')"
  shows "\<exists>s1 s' ev.
           physics_step (tilt_tick ax ay t) (handle_buttons (tilt_tick ax ay t) s) = Some s1
           \<and> ball_at s1 (x + vx') (y + vy') vx' vy' hits \<and> speed_of s1 = sp
           \<and> (\<forall>i<8. rod_hit t s1 i \<longleftrightarrow> near_rod i (x + vx') (y + vy') \<and> 80 < t - hits ! i)
           \<and> loop (tilt_tick ax ay t) s = Some (s', ev)
           \<and> map (\<lambda>e. (rod e, velocity e)) ev
                = nominal_strikes t (x + vx') (y + vy') hits sp [0..<8]
           \<and> map pitch ev = map (\<lambda>e. example_notes ! 0 ! rod e) ev
           \<and> rod_last_hit s'
                = map (\<lambda>i. if near_rod i (x + vx') (y + vy') \<and> 80 < t - hits ! i then t else hits ! i)
                    [0..<8]
           \<and> (\<forall>i<8. unat (rod_glow s' ! i)
                       = (if near_rod i (x + vx') (y + vy') \<and> 80 < t - hits ! i then 15
                          else unat (rod_glow s ! i)) - 1)"
proof -
  let ?inp = "tilt_tick ax ay t"
  from tilt_physics [OF at vx' vy' v p, of t]
  obtain s1 where ps: "physics_step ?inp (handle_buttons ?inp s) = Some s1"
    and at1: "ball_at s1 (x + vx') (y + vy') vx' vy' hits"
    by blast
  have sp1: "speed_of s1 = sp"
    using at1 sqrt_from_sq [OF sp] by (simp add: speed_of_def ball_at_def)
  have g: "rod_fx s1 = rod_fx power_on" "rod_fy s1 = rod_fy power_on"
    and b: "ball_x s1 = x + vx'" "ball_y s1 = y + vy'" and lh: "rod_last_hit s1 = hits"
    and len: "length hits = 8"
    using at1 by (simp_all add: ball_at_def)
  have hit: "rod_hit t s1 i \<longleftrightarrow> near_rod i (x + vx') (y + vy') \<and> 80 < t - hits ! i" if "i < 8" for i
    using rod_hit_decided [OF g that, of t] dec that by (simp add: b lh)
  obtain s1' s' ev where ps': "physics_step ?inp (handle_buttons ?inp s) = Some s1'"
    and l: "loop ?inp s = Some (s', ev)"
    and st: "map (\<lambda>e. (rod e, velocity e)) ev = expected_strikes (now ?inp) s1' (speed_of s1') [0..<8]"
    and pi: "\<forall>e \<in> set ev. pitch e = chime_notes s ! nat (current_chime (handle_buttons ?inp s)) ! rod e"
    and ts: "\<And>i. i < 8 \<Longrightarrow> i < length (rod_last_hit s) \<Longrightarrow>
           rod_last_hit s' ! i = (if rod_hit (now ?inp) s1' i then now ?inp else rod_last_hit s ! i)"
    and tl: "length (rod_last_hit s') = length (rod_last_hit s)"
    by (rule loop_strikes [where inp = ?inp and s = s]) blast
  from ps ps' have eq: "s1' = s1" by simp
  have lhs: "rod_last_hit s = hits" "chime_notes s = example_notes" "current_chime s = 0"
    "length (rod_glow s) = 8"
    using at by (simp_all add: ball_at_def)
  have A: "map (\<lambda>e. (rod e, velocity e)) ev = nominal_strikes t (x + vx') (y + vy') hits sp [0..<8]"
  proof -
    have "expected_strikes t s1 sp [0..<8]
            = nominal_strikes t (ball_x s1) (ball_y s1) (rod_last_hit s1) sp [0..<8]"
      by (rule expected_nominal [OF g]) (use dec in \<open>simp add: b\<close>)
    with st show ?thesis by (simp add: eq sp1 b lh)
  qed
  have B: "map pitch ev = map (\<lambda>e. example_notes ! 0 ! rod e) ev"
    using pi by (simp add: lhs)
  have C: "rod_last_hit s'
             = map (\<lambda>i. if near_rod i (x + vx') (y + vy') \<and> 80 < t - hits ! i then t else hits ! i)
                 [0..<8]"
  proof (rule nth_equalityI)
    show "length (rod_last_hit s') = length (map (\<lambda>i. if near_rod i (x + vx') (y + vy')
              \<and> 80 < t - hits ! i then t else hits ! i) [0..<8])"
      using tl lhs len by simp
  next
    fix i assume "i < length (rod_last_hit s')"
    then have i: "i < 8" using tl lhs len by simp
    then show "rod_last_hit s' ! i = map (\<lambda>i. if near_rod i (x + vx') (y + vy')
              \<and> 80 < t - hits ! i then t else hits ! i) [0..<8] ! i"
      using ts [of i] hit [OF i] lhs len by (simp add: eq)
  qed
  have D: "\<forall>i<8. unat (rod_glow s' ! i)
                       = (if near_rod i (x + vx') (y + vy') \<and> 80 < t - hits ! i then 15
                          else unat (rod_glow s ! i)) - 1"
  proof (intro allI impI)
    fix i :: nat assume i: "i < 8"
    from l obtain q where q: "physics_step ?inp (handle_buttons ?inp s) = Some q"
      and gl: "\<And>i. i < 8 \<Longrightarrow> i < length (rod_glow s) \<Longrightarrow>
           unat (rod_glow s' ! i) = (if rod_hit (now ?inp) q i then 15 else unat (rod_glow s ! i)) - 1"
      by (rule loop_rod) blast
    from q ps have "q = s1" by simp
    with gl [of i] i lhs hit [OF i]
    show "unat (rod_glow s' ! i)
                       = (if near_rod i (x + vx') (y + vy') \<and> 80 < t - hits ! i then 15
                          else unat (rod_glow s ! i)) - 1"
      by simp
  qed
  from ps at1 sp1 hit l A B C D show ?thesis by blast
qed

lemma all_less_8:
  "(\<forall>i<8. P i) \<longleftrightarrow> P 0 \<and> P 1 \<and> P 2 \<and> P 3 \<and> P 4 \<and> P 5 \<and> P 6 \<and> P (7::nat)"
proof
  assume "\<forall>i<8. P i"
  then show "P 0 \<and> P 1 \<and> P 2 \<and> P 3 \<and> P 4 \<and> P 5 \<and> P 6 \<and> P 7" by simp
next
  assume a: "P 0 \<and> P 1 \<and> P 2 \<and> P 3 \<and> P 4 \<and> P 5 \<and> P 6 \<and> P 7"
  show "\<forall>i<8. P i"
  proof (intro allI impI)
    fix i :: nat assume "i < 8"
    from less_8_cases [OF this] a show "P i" by auto
  qed
qed

lemma run_append:
  "run s (xs @ ys) = do {
     (s1, e1) \<leftarrow> run s xs;
     (s2, e2) \<leftarrow> run s1 ys;
     Some (s2, e1 @ e2)
   }"
proof (induction xs arbitrary: s)
  case Nil
  then show ?case by (cases "run s ys") auto
next
  case (Cons x xs)
  obtain s1 e1 where l: "loop x s = Some (s1, e1)" using loop_Some by blast
  show ?case
    by (cases "run s1 xs"; cases "run (fst (the (run s1 xs))) ys")
       (auto simp: l Cons.IH split: bind_splits)
qed

lemma run_snoc:
  assumes "run s xs = Some (s1, e1)" "loop inp s1 = Some (s2, e2)"
  shows "run s (xs @ [inp]) = Some (s2, e1 @ e2)"
  by (simp add: run_append assms)

lemma tick_quiet:
  assumes at: "ball_at s x y vx vy hits"
    and vx': "vx' = (vx - ax * GRAVITY_SCALE * (2 / 100)) * FRICTION"
    and vy': "vy' = (vy + ay * GRAVITY_SCALE * (2 / 100)) * FRICTION"
    and v: "vx' * vx' + vy' * vy' \<le> 20 * 20"
    and p: "(x + vx') * (x + vx') + (y + vy') * (y + vy') \<le> 51 * 51"
    and dec: "\<forall>i<8. far_rod i (x + vx') (y + vy') \<or> near_rod i (x + vx') (y + vy')"
    and quiet: "\<forall>i<8. \<not> (near_rod i (x + vx') (y + vy') \<and> 80 < t - hits ! i)"
  shows "\<exists>s'. loop (tilt_tick ax ay t) s = Some (s', [])
           \<and> ball_at s' (x + vx') (y + vy') vx' vy' hits
           \<and> (\<forall>i<8. unat (rod_glow s' ! i) = unat (rod_glow s ! i) - 1)"
proof -
  let ?inp = "tilt_tick ax ay t"
  from tilt_physics [OF at vx' vy' v p, of t]
  obtain s1 where ps: "physics_step ?inp (handle_buttons ?inp s) = Some s1"
    and at1: "ball_at s1 (x + vx') (y + vy') vx' vy' hits" and gl1: "rod_glow s1 = rod_glow s"
    by blast
  have g: "rod_fx s1 = rod_fx power_on" "rod_fy s1 = rod_fy power_on"
    and b: "ball_x s1 = x + vx'" "ball_y s1 = y + vy'" and lh: "rod_last_hit s1 = hits"
    using at1 by (simp_all add: ball_at_def)
  have miss: "\<forall>i \<in> set [0..<8]. \<not> rod_hit t s1 i"
  proof
    fix i assume "i \<in> set [0..<8]"
    then have i: "i < 8" by simp
    with rod_hit_decided [OF g i, of t] dec quiet show "\<not> rod_hit t s1 i"
      by (simp add: b lh)
  qed
  have sp: "speed_of s1 \<le> MAX_SPEED" by (rule physics_step_bounds(2) [OF ps])
  have "check_rods t s1 = Some (s1, [])"
    unfolding check_rods_def by (rule rod_loop_all_miss [OF sp miss])
  then have l: "loop ?inp s = Some (drawUpdate s1, [])"
    using ps by (simp add: loop_def)
  have at': "ball_at (drawUpdate s1) (x + vx') (y + vy') vx' vy' hits"
    using at1 by (simp add: ball_at_def)
  have len: "length (rod_glow s1) = 8" using at1 by (simp add: ball_at_def)
  have "\<forall>i<8. unat (rod_glow (drawUpdate s1) ! i) = unat (rod_glow s ! i) - 1"
    using drawUpdate_glow [OF len] gl1 by simp
  with l at' show ?thesis by blast
qed

lemma tick_axis_strike:
  assumes at: "ball_at s x 0 vx 0 hits"
    and vx': "vx' = (vx - ax * GRAVITY_SCALE * (2 / 100)) * FRICTION"
    and v: "\<bar>vx'\<bar> \<le> 20"
    and p: "32 \<le> x + vx'" "x + vx' \<le> 51"
    and deb: "80 < t - hits ! 2"
  shows "\<exists>s'. loop (tilt_tick ax 0 t) s
                 = Some (s', [\<lparr>rod = 2, pitch = 64,
                               velocity = word_of_int (min 127 \<lfloor>30 + \<bar>vx'\<bar> * 5\<rfloor>)\<rparr>])
           \<and> ball_at s' (x + vx') 0 (- 2) 0 (hits[2 := t])"
proof -
  let ?inp = "tilt_tick ax 0 t"
  have vy': "(0::real) = (0 + 0 * GRAVITY_SCALE * (2 / 100)) * FRICTION" by simp
  have v2: "vx' * vx' + 0 * 0 \<le> (20::real) * 20"
    using sq_abs_le [OF v] by simp
  have "\<bar>x + vx'\<bar> \<le> 51" using p by simp
  from sq_abs_le [OF this]
  have p2: "(x + vx') * (x + vx') + (0 + 0) * (0 + 0) \<le> (51::real) * 51" by simp
  from tilt_physics [OF at vx' vy' v2 p2, of t]
  obtain s1 where ps: "physics_step ?inp (handle_buttons ?inp s) = Some s1"
    and at1: "ball_at s1 (x + vx') 0 vx' 0 hits"
    by auto
  have g: "rod_fx s1 = rod_fx power_on" "rod_fy s1 = rod_fy power_on"
    and b: "ball_x s1 = x + vx'" "ball_y s1 = 0" and bv: "ball_vx s1 = vx'" "ball_vy s1 = 0"
    and lh: "rod_last_hit s1 = hits"
    and cn: "chime_notes s1 = example_notes" "current_chime s1 = 0"
    and len: "length hits = 8"
    using at1 by (simp_all add: ball_at_def)
  have n2: "near_rod 2 (x + vx') 0"
  proof -
    have a: "\<bar>x + vx' - 55\<bar> + 1 / 4 \<le> 93 / 4" "0 \<le> \<bar>x + vx' - 55\<bar> + 1 / 4" using p by simp_all
    have "(\<bar>x + vx' - 55\<bar> + 1 / 4) * (\<bar>x + vx' - 55\<bar> + 1 / 4) \<le> (93 / 4) * (93 / 4)"
      by (rule mult_mono) (use a in simp_all)
    then show ?thesis using p by (simp add: near_rod_def nominal_rods_def)
  qed
  have far: "far_rod i (x + vx') 0" if "i < 8" "i \<noteq> 2" for i
    using less_8_cases [OF that(1)] that(2) p
    by (elim disjE) (simp_all add: far_rod_def nominal_rods_def)
  have h2: "rod_hit t s1 2"
    using rod_hit_decided [OF g, of 2 t] n2 deb by (simp add: b lh)
  have others: "\<forall>i<8. i \<noteq> 2 \<longrightarrow> \<not> rod_hit t s1 i"
  proof (intro allI impI)
    fix i :: nat assume i: "i < 8" "i \<noteq> 2"
    from far [OF i] far_not_near [OF far [OF i]] rod_hit_decided [OF g i(1), of t]
    show "\<not> rod_hit t s1 i" by (simp add: b)
  qed
  have sp: "speed_of s1 \<le> MAX_SPEED" by (rule physics_step_bounds(2) [OF ps])
  have spv: "speed_of s1 = \<bar>vx'\<bar>" by (simp add: speed_of_def bv)
  have rl: "rod_loop t [0..<8] s1 =
           Some (struck t 2 s1,
                 [\<lparr>rod = 2, pitch = chime_notes s1 ! nat (current_chime s1) ! 2,
                   velocity = word_of_int (min 127 \<lfloor>30 + speed_of s1 * 5\<rfloor>)\<rparr>])"
    by (rule rod_loop_only [OF sp _ h2 others]) simp
  have pitch: "chime_notes s1 ! nat (current_chime s1) ! 2 = 64"
    by (simp add: cn example_notes_def)
  have l: "loop ?inp s = Some (drawUpdate (struck t 2 s1),
              [\<lparr>rod = 2, pitch = 64, velocity = word_of_int (min 127 \<lfloor>30 + \<bar>vx'\<bar> * 5\<rfloor>)\<rparr>])"
    using ps rl by (simp add: loop_def check_rods_def pitch spv)
  note enc = setup_rod_enclosure [OF g [unfolded power_on_def]]
  have d2: "rod_dist s1 2 = 55 - (x + vx')"
    using p by (simp add: rod_dist_def b enc(5,6))
  have "rod_dist s1 2 > 1 / 10" using d2 p by simp
  then have bvx: "ball_vx (struck t 2 s1) = - 2" and bvy: "ball_vy (struck t 2 s1) = 0"
    using p by (simp_all add: struck_def Let_def d2 b enc(5,6) ROD_BOUNCE_def field_simps)
  have "ball_at (drawUpdate (struck t 2 s1)) (x + vx') 0 (- 2) 0 (hits[2 := t])"
    using at1 bvx bvy by (simp add: ball_at_def)
  with l show ?thesis by blast
qed

lemma approach_run:
  "\<exists>s'. run power_on (approach t0) = Some (s', []) \<and> ball_at s' 24 0 12 0 (replicate 8 0)
        \<and> (\<forall>i<8. unat (rod_glow s' ! i) = 0)"
proof -
  have g0: "\<forall>i<8. unat (rod_glow power_on ! i) = 0"
    by (simp add: power_on_def setup_init_def)
  have "\<exists>s'. loop (tilt_tick (- 500 / 291) 0 t0) power_on = Some (s', [])
           \<and> ball_at s' (0 + 4) (0 + 0) 4 0 (replicate 8 0)
           \<and> (\<forall>i<8. unat (rod_glow s' ! i) = unat (rod_glow power_on ! i) - 1)"
    by (rule tick_quiet [OF ball_at_power_on])
       (simp_all add: GRAVITY_SCALE_def FRICTION_def all_less_8 far_rod_def near_rod_def
          nominal_rods_def)
  then obtain s1 where l1: "loop (tilt_tick (- 500 / 291) 0 t0) power_on = Some (s1, [])"
    and a1: "ball_at s1 4 0 4 0 (replicate 8 0)"
    and g1: "\<forall>i<8. unat (rod_glow s1 ! i) = 0"
    using g0 by auto
  have "\<exists>s'. loop (tilt_tick (- 515 / 291) 0 (t0 + 20)) s1 = Some (s', [])
           \<and> ball_at s' (4 + 8) (0 + 0) 8 0 (replicate 8 0)
           \<and> (\<forall>i<8. unat (rod_glow s' ! i) = unat (rod_glow s1 ! i) - 1)"
    by (rule tick_quiet [OF a1])
       (simp_all add: GRAVITY_SCALE_def FRICTION_def all_less_8 far_rod_def near_rod_def
          nominal_rods_def)
  then obtain s2 where l2: "loop (tilt_tick (- 515 / 291) 0 (t0 + 20)) s1 = Some (s2, [])"
    and a2: "ball_at s2 12 0 8 0 (replicate 8 0)"
    and g2: "\<forall>i<8. unat (rod_glow s2 ! i) = 0"
    using g1 by auto
  have "\<exists>s'. loop (tilt_tick (- 530 / 291) 0 (t0 + 40)) s2 = Some (s', [])
           \<and> ball_at s' (12 + 12) (0 + 0) 12 0 (replicate 8 0)
           \<and> (\<forall>i<8. unat (rod_glow s' ! i) = unat (rod_glow s2 ! i) - 1)"
    by (rule tick_quiet [OF a2])
       (simp_all add: GRAVITY_SCALE_def FRICTION_def all_less_8 far_rod_def near_rod_def
          nominal_rods_def)
  then obtain s3 where l3: "loop (tilt_tick (- 530 / 291) 0 (t0 + 40)) s2 = Some (s3, [])"
    and a3: "ball_at s3 24 0 12 0 (replicate 8 0)"
    and g3: "\<forall>i<8. unat (rod_glow s3 ! i) = 0"
    using g2 by auto
  have "run power_on (approach t0) = Some (s3, [])"
    using l1 l2 l3 by (simp add: approach_def)
  with a3 g3 show ?thesis by blast
qed

lemma one_strike:
  assumes "map (\<lambda>e. (rod e, velocity e)) ev = [(i, w)]"
    and "map pitch ev = map (\<lambda>e. example_notes ! 0 ! rod e) ev"
  shows "ev = [\<lparr>rod = i, pitch = example_notes ! 0 ! i, velocity = w\<rparr>]"
proof -
  from assms(1) obtain e where ev: "ev = [e]" and e: "rod e = i" "velocity e = w" by auto
  from assms(2) have "pitch e = example_notes ! 0 ! i" by (simp add: ev e)
  with e have "e = \<lparr>rod = i, pitch = example_notes ! 0 ! i, velocity = w\<rparr>" by simp
  with ev show ?thesis by simp
qed

lemma two_strikes:
  assumes "map (\<lambda>e. (rod e, velocity e)) ev = [(i, w), (j, u)]"
    and "map pitch ev = map (\<lambda>e. example_notes ! 0 ! rod e) ev"
  shows "ev = [\<lparr>rod = i, pitch = example_notes ! 0 ! i, velocity = w\<rparr>,
               \<lparr>rod = j, pitch = example_notes ! 0 ! j, velocity = u\<rparr>]"
proof -
  from assms(1) obtain e f where ev: "ev = [e, f]"
    and e: "rod e = i" "velocity e = w" "rod f = j" "velocity f = u" by auto
  from assms(2) have "pitch e = example_notes ! 0 ! i" "pitch f = example_notes ! 0 ! j"
    by (simp_all add: ev e)
  with e have "e = \<lparr>rod = i, pitch = example_notes ! 0 ! i, velocity = w\<rparr>"
    "f = \<lparr>rod = j, pitch = example_notes ! 0 ! j, velocity = u\<rparr>" by simp_all
  with ev show ?thesis by simp
qed

lemma last_tick:
  assumes r: "run power_on pre = Some (sB, evB)"
    and at: "ball_at sB x y vx vy hits"
    and vx': "vx' = (vx - ax * GRAVITY_SCALE * (2 / 100)) * FRICTION"
    and vy': "vy' = (vy + ay * GRAVITY_SCALE * (2 / 100)) * FRICTION"
    and v: "vx' * vx' + vy' * vy' \<le> 20 * 20"
    and p: "(x + vx') * (x + vx') + (y + vy') * (y + vy') \<le> 51 * 51"
    and sp: "sp * sp = vx' * vx' + vy' * vy'" "0 \<le> sp"
    and dec: "\<forall>i<8. far_rod i (x + vx') (y + vy') \<or> near_rod i (x + vx') (y + vy')"
    and R: "R = pre @ [tilt_tick ax ay t]"
  shows "fst (the (run power_on (butlast R))) = sB" "last R = tilt_tick ax ay t"
    and "physics_step (tilt_tick ax ay t) (handle_buttons (tilt_tick ax ay t) sB)
           = Some (last_tick_entry R)"
    and "ball_at (last_tick_entry R) (x + vx') (y + vy') vx' vy' hits"
    and "speed_of (last_tick_entry R) = sp"
    and "\<forall>i<8. rod_hit t (last_tick_entry R) i
                 \<longleftrightarrow> near_rod i (x + vx') (y + vy') \<and> 80 < t - hits ! i"
    and "map (\<lambda>e. (rod e, velocity e)) (last_tick_strikes R)
           = nominal_strikes t (x + vx') (y + vy') hits sp [0..<8]"
    and "map pitch (last_tick_strikes R)
           = map (\<lambda>e. example_notes ! 0 ! rod e) (last_tick_strikes R)"
    and "\<exists>s'. loop (tilt_tick ax ay t) sB = Some (s', last_tick_strikes R)
           \<and> run power_on R = Some (s', evB @ last_tick_strikes R)
           \<and> rod_last_hit s'
                = map (\<lambda>i. if near_rod i (x + vx') (y + vy') \<and> 80 < t - hits ! i then t
                            else hits ! i) [0..<8]
           \<and> (\<forall>i<8. unat (rod_glow s' ! i)
                       = (if near_rod i (x + vx') (y + vy') \<and> 80 < t - hits ! i then 15
                          else unat (rod_glow sB ! i)) - 1)"
proof -
  let ?inp = "tilt_tick ax ay t"
  from tick_strikes [OF at vx' vy' v p sp dec, of t]
  obtain s1 s' ev where
    ps: "physics_step ?inp (handle_buttons ?inp sB) = Some s1"
    and a1: "ball_at s1 (x + vx') (y + vy') vx' vy' hits" and s1: "speed_of s1 = sp"
    and h: "\<forall>i<8. rod_hit t s1 i \<longleftrightarrow> near_rod i (x + vx') (y + vy') \<and> 80 < t - hits ! i"
    and l: "loop ?inp sB = Some (s', ev)"
    and st: "map (\<lambda>e. (rod e, velocity e)) ev
               = nominal_strikes t (x + vx') (y + vy') hits sp [0..<8]"
    and pi: "map pitch ev = map (\<lambda>e. example_notes ! 0 ! rod e) ev"
    and lh: "rod_last_hit s'
                = map (\<lambda>i. if near_rod i (x + vx') (y + vy') \<and> 80 < t - hits ! i then t
                            else hits ! i) [0..<8]"
    and gl: "\<forall>i<8. unat (rod_glow s' ! i)
                       = (if near_rod i (x + vx') (y + vy') \<and> 80 < t - hits ! i then 15
                          else unat (rod_glow sB ! i)) - 1"
    by blast
  show b: "fst (the (run power_on (butlast R))) = sB" and la: "last R = ?inp"
    by (simp_all add: R r)
  have e: "last_tick_entry R = s1" using ps by (simp add: last_tick_entry_def b la)
  have k: "last_tick_strikes R = ev" using l by (simp add: last_tick_strikes_def b la)
  show "physics_step ?inp (handle_buttons ?inp sB) = Some (last_tick_entry R)"
    "ball_at (last_tick_entry R) (x + vx') (y + vy') vx' vy' hits"
    "speed_of (last_tick_entry R) = sp"
    "\<forall>i<8. rod_hit t (last_tick_entry R) i
                 \<longleftrightarrow> near_rod i (x + vx') (y + vy') \<and> 80 < t - hits ! i"
    "map (\<lambda>e. (rod e, velocity e)) (last_tick_strikes R)
           = nominal_strikes t (x + vx') (y + vy') hits sp [0..<8]"
    "map pitch (last_tick_strikes R)
           = map (\<lambda>e. example_notes ! 0 ! rod e) (last_tick_strikes R)"
    using ps a1 s1 h st pi by (simp_all only: e k)
  have "run power_on R = Some (s', evB @ ev)"
    unfolding R by (rule run_snoc [OF r l])
  with l lh gl show "\<exists>s'. loop (tilt_tick ax ay t) sB = Some (s', last_tick_strikes R)
           \<and> run power_on R = Some (s', evB @ last_tick_strikes R)
           \<and> rod_last_hit s'
                = map (\<lambda>i. if near_rod i (x + vx') (y + vy') \<and> 80 < t - hits ! i then t
                            else hits ! i) [0..<8]
           \<and> (\<forall>i<8. unat (rod_glow s' ! i)
                       = (if near_rod i (x + vx') (y + vy') \<and> 80 < t - hits ! i then 15
                          else unat (rod_glow sB ! i)) - 1)"
    unfolding k by blast
qed

lemmas geo = GRAVITY_SCALE_def FRICTION_def all_less_8 far_rod_def near_rod_def nominal_rods_def

lemma glance_pre:
  "\<exists>sB. run power_on (approach 3000) = Some (sB, []) \<and> ball_at sB 24 0 12 0 (replicate 8 0)
        \<and> (\<forall>i<8. unat (rod_glow sB ! i) = 0)"
  by (rule approach_run)

lemma glance_facts:
  "speed_of (last_tick_entry glance_run) = 291 / 25"
  "rod_hit 3060 (last_tick_entry glance_run) 2"
  "last_tick_strikes glance_run = [\<lparr>rod = 2, pitch = 64, velocity = 88\<rparr>]"
  "\<exists>s3 s'. run power_on (approach 3000) = Some (s3, [])
        \<and> length (rod_last_hit s3) = 8 \<and> (\<forall>i<8. unat (rod_glow s3 ! i) = 0)
        \<and> loop (tilt_tick 0 0 3060) s3 = Some (s', last_tick_strikes glance_run)
        \<and> run power_on glance_run = Some (s', last_tick_strikes glance_run)
        \<and> unat (rod_glow s' ! 2) = 14 \<and> unat (rod_glow s' ! 3) = 0
        \<and> rod_last_hit s' ! 2 = 3060"
proof -
  from glance_pre obtain sB where r: "run power_on (approach 3000) = Some (sB, [])"
    and at: "ball_at sB 24 0 12 0 (replicate 8 0)"
    and g: "\<forall>i<8. unat (rod_glow sB ! i) = 0" by blast
  note lt = last_tick [OF r at, where ax = 0 and ay = 0 and vx' = "291 / 25" and vy' = 0
      and sp = "291 / 25" and t = 3060 and R = glance_run]
  have c: "(291 / 25 :: real) = (12 - 0 * GRAVITY_SCALE * (2 / 100)) * FRICTION"
    "(0 :: real) = (0 + 0 * GRAVITY_SCALE * (2 / 100)) * FRICTION"
    "(291 / 25 :: real) * (291 / 25) + 0 * 0 \<le> 20 * 20"
    "(24 + 291 / 25 :: real) * (24 + 291 / 25) + (0 + 0) * (0 + 0) \<le> 51 * 51"
    "(291 / 25 :: real) * (291 / 25) = 291 / 25 * (291 / 25) + 0 * 0" "(0 :: real) \<le> 291 / 25"
    "\<forall>i<8. far_rod i (24 + 291 / 25) (0 + 0) \<or> near_rod i (24 + 291 / 25) (0 + 0)"
    "glance_run = approach 3000 @ [tilt_tick 0 0 3060]"
    by (simp_all add: geo glance_run_def)
  note f = lt [OF c]
  show "speed_of (last_tick_entry glance_run) = 291 / 25" by (rule f(5))
  show "rod_hit 3060 (last_tick_entry glance_run) 2"
    using f(6) by (simp add: geo)
  have "nominal_strikes 3060 (24 + 291 / 25) (0 + 0) (replicate 8 0) (291 / 25) [0..<8] = [(2, 88)]"
    by (simp add: upt_0_8 near_rod_def nominal_rods_def)
  with f(7) have "map (\<lambda>e. (rod e, velocity e)) (last_tick_strikes glance_run) = [(2, 88)]"
    by simp
  from one_strike [OF this f(8)]
  show k: "last_tick_strikes glance_run = [\<lparr>rod = 2, pitch = 64, velocity = 88\<rparr>]"
    by (simp add: example_notes_def)
  from f(9) obtain s' where
    l: "loop (tilt_tick 0 0 3060) sB = Some (s', last_tick_strikes glance_run)"
    and r': "run power_on glance_run = Some (s', [] @ last_tick_strikes glance_run)"
    and lh: "rod_last_hit s'
                = map (\<lambda>i. if near_rod i (24 + 291 / 25) (0 + 0)
                               \<and> 80 < 3060 - replicate 8 (0 :: u32) ! i
                            then 3060 else replicate 8 0 ! i) [0..<8]"
    and gl: "\<forall>i<8. unat (rod_glow s' ! i)
                       = (if near_rod i (24 + 291 / 25) (0 + 0)
                             \<and> 80 < 3060 - replicate 8 (0 :: u32) ! i
                          then 15 else unat (rod_glow sB ! i)) - 1"
    by blast
  have len: "length (rod_last_hit sB) = 8" using at by (simp add: ball_at_def)
  have g2: "unat (rod_glow s' ! 2) = 14" "unat (rod_glow s' ! 3) = 0"
    using gl g by (simp_all add: geo)
  have t2: "rod_last_hit s' ! 2 = 3060" by (simp add: lh upt_0_8 geo)
  from r len g l r' g2 t2
  show "\<exists>s3 s'. run power_on (approach 3000) = Some (s3, [])
        \<and> length (rod_last_hit s3) = 8 \<and> (\<forall>i<8. unat (rod_glow s3 ! i) = 0)
        \<and> loop (tilt_tick 0 0 3060) s3 = Some (s', last_tick_strikes glance_run)
        \<and> run power_on glance_run = Some (s', last_tick_strikes glance_run)
        \<and> unat (rod_glow s' ! 2) = 14 \<and> unat (rod_glow s' ! 3) = 0
        \<and> rod_last_hit s' ! 2 = 3060"
    by (intro exI [of _ sB] exI [of _ s']) simp
qed

lemma run_quiet:
  assumes r: "run power_on pre = Some (s, ev)"
    and at: "ball_at s x y vx vy hits"
    and vx': "vx' = (vx - ax * GRAVITY_SCALE * (2 / 100)) * FRICTION"
    and vy': "vy' = (vy + ay * GRAVITY_SCALE * (2 / 100)) * FRICTION"
    and v: "vx' * vx' + vy' * vy' \<le> 20 * 20"
    and p: "(x + vx') * (x + vx') + (y + vy') * (y + vy') \<le> 51 * 51"
    and dec: "\<forall>i<8. far_rod i (x + vx') (y + vy') \<or> near_rod i (x + vx') (y + vy')"
    and quiet: "\<forall>i<8. \<not> (near_rod i (x + vx') (y + vy') \<and> 80 < t - hits ! i)"
    and x': "x' = x + vx'" and y': "y' = y + vy'"
  shows "\<exists>s'. run power_on (pre @ [tilt_tick ax ay t]) = Some (s', ev)
           \<and> ball_at s' x' y' vx' vy' hits"
proof -
  from tick_quiet [OF at vx' vy' v p dec quiet]
  obtain s' where l: "loop (tilt_tick ax ay t) s = Some (s', [])"
    and a: "ball_at s' (x + vx') (y + vy') vx' vy' hits" by blast
  from run_snoc [OF r l] a show ?thesis by (simp add: x' y')
qed

lemma run_axis_strike:
  assumes r: "run power_on pre = Some (s, ev)"
    and at: "ball_at s x 0 vx 0 hits"
    and vx': "vx' = (vx - ax * GRAVITY_SCALE * (2 / 100)) * FRICTION"
    and v: "\<bar>vx'\<bar> \<le> 20"
    and p: "32 \<le> x + vx'" "x + vx' \<le> 51"
    and deb: "80 < t - hits ! 2"
    and x': "x' = x + vx'" and w: "w = word_of_int (min 127 \<lfloor>30 + \<bar>vx'\<bar> * 5\<rfloor>)"
  shows "\<exists>s'. run power_on (pre @ [tilt_tick ax 0 t])
                 = Some (s', ev @ [\<lparr>rod = 2, pitch = 64, velocity = w\<rparr>])
           \<and> ball_at s' x' 0 (- 2) 0 (hits[2 := t])"
proof -
  from tick_axis_strike [OF at vx' v p deb]
  obtain s' where l: "loop (tilt_tick ax 0 t) s
                 = Some (s', [\<lparr>rod = 2, pitch = 64,
                               velocity = word_of_int (min 127 \<lfloor>30 + \<bar>vx'\<bar> * 5\<rfloor>)\<rparr>])"
    and a: "ball_at s' (x + vx') 0 (- 2) 0 (hits[2 := t])" by blast
  from run_snoc [OF r l] a show ?thesis by (simp add: x' w)
qed


lemma lens_pre:
  "\<exists>sB. run power_on (butlast lens_run) = Some (sB, [])
        \<and> ball_at sB 30 (25 / 2) 12 5 (replicate 8 0)"
proof -
  have r0: "run power_on [] = Some (power_on, [])" by simp
  have "\<exists>s'. run power_on ([] @ [tilt_tick (- 250 / 97) (625 / 582) 3000]) = Some (s', [])
           \<and> ball_at s' 6 (5 / 2) 6 (5 / 2) (replicate 8 0)"
    by (rule run_quiet [OF r0 ball_at_power_on]) (simp_all add: geo)
  then obtain s1 where
    r1: "run power_on ([] @ [tilt_tick (- 250 / 97) (625 / 582) 3000]) = Some (s1, [])"
    and a1: "ball_at s1 6 (5 / 2) 6 (5 / 2) (replicate 8 0)" by blast
  have "\<exists>s'. run power_on (([] @ [tilt_tick (- 250 / 97) (625 / 582) 3000])
                  @ [tilt_tick (- 515 / 194) (2575 / 2328) 3020]) = Some (s', [])
           \<and> ball_at s' 18 (15 / 2) 12 5 (replicate 8 0)"
    by (rule run_quiet [OF r1 a1]) (simp_all add: geo)
  then obtain s2 where
    r2: "run power_on (([] @ [tilt_tick (- 250 / 97) (625 / 582) 3000])
                  @ [tilt_tick (- 515 / 194) (2575 / 2328) 3020]) = Some (s2, [])"
    and a2: "ball_at s2 18 (15 / 2) 12 5 (replicate 8 0)" by blast
  have "\<exists>s'. run power_on ((([] @ [tilt_tick (- 250 / 97) (625 / 582) 3000])
                  @ [tilt_tick (- 515 / 194) (2575 / 2328) 3020])
                  @ [tilt_tick (- 15 / 97) (25 / 388) 3040]) = Some (s', [])
           \<and> ball_at s' 30 (25 / 2) 12 5 (replicate 8 0)"
    by (rule run_quiet [OF r2 a2]) (simp_all add: geo)
  then obtain s3 where
    r3: "run power_on ((([] @ [tilt_tick (- 250 / 97) (625 / 582) 3000])
                  @ [tilt_tick (- 515 / 194) (2575 / 2328) 3020])
                  @ [tilt_tick (- 15 / 97) (25 / 388) 3040]) = Some (s3, [])"
    and a3: "ball_at s3 30 (25 / 2) 12 5 (replicate 8 0)" by blast
  have "butlast lens_run = (([] @ [tilt_tick (- 250 / 97) (625 / 582) 3000])
                  @ [tilt_tick (- 515 / 194) (2575 / 2328) 3020])
                  @ [tilt_tick (- 15 / 97) (25 / 388) 3040]"
    by (simp add: lens_run_def)
  with r3 a3 show ?thesis by simp
qed

lemma lens_facts:
  "ball_x (last_tick_entry lens_run) = 42" "ball_y (last_tick_entry lens_run) = 35 / 2"
  "ball_vx (last_tick_entry lens_run) = 12" "ball_vy (last_tick_entry lens_run) = 5"
  "speed_of (last_tick_entry lens_run) = 13"
  "rod_hit 3060 (last_tick_entry lens_run) 2" "rod_hit 3060 (last_tick_entry lens_run) 3"
  "last_tick_strikes lens_run = [\<lparr>rod = 2, pitch = 64, velocity = 95\<rparr>,
                                 \<lparr>rod = 3, pitch = 67, velocity = 40\<rparr>]"
  "last lens_run = tilt_tick (- 15 / 97) (25 / 388) 3060"
  "\<exists>s'. loop (last lens_run) (fst (the (run power_on (butlast lens_run))))
            = Some (s', last_tick_strikes lens_run)"
  "physics_step (last lens_run) (handle_buttons (last lens_run)
       (fst (the (run power_on (butlast lens_run))))) = Some (last_tick_entry lens_run)"
proof -
  from lens_pre obtain sB where r: "run power_on (butlast lens_run) = Some (sB, [])"
    and at: "ball_at sB 30 (25 / 2) 12 5 (replicate 8 0)" by blast
  note lt = last_tick [OF r at, where ax = "- 15 / 97" and ay = "25 / 388" and vx' = 12
      and vy' = 5 and sp = 13 and t = 3060 and R = lens_run]
  have c: "(12 :: real) = (12 - (- 15 / 97) * GRAVITY_SCALE * (2 / 100)) * FRICTION"
    "(5 :: real) = (5 + 25 / 388 * GRAVITY_SCALE * (2 / 100)) * FRICTION"
    "(12 :: real) * 12 + 5 * 5 \<le> 20 * 20"
    "(30 + 12 :: real) * (30 + 12) + (25 / 2 + 5) * (25 / 2 + 5) \<le> 51 * 51"
    "(13 :: real) * 13 = 12 * 12 + 5 * 5" "(0 :: real) \<le> 13"
    "\<forall>i<8. far_rod i (30 + 12) (25 / 2 + 5) \<or> near_rod i (30 + 12) (25 / 2 + 5)"
    "lens_run = butlast lens_run @ [tilt_tick (- 15 / 97) (25 / 388) 3060]"
    by (simp_all add: geo lens_run_def)
  note f = lt [OF c]
  show "ball_x (last_tick_entry lens_run) = 42" "ball_y (last_tick_entry lens_run) = 35 / 2"
    "ball_vx (last_tick_entry lens_run) = 12" "ball_vy (last_tick_entry lens_run) = 5"
    using f(4) by (simp_all add: ball_at_def)
  show "speed_of (last_tick_entry lens_run) = 13" by (rule f(5))
  show "rod_hit 3060 (last_tick_entry lens_run) 2" "rod_hit 3060 (last_tick_entry lens_run) 3"
    using f(6) by (simp_all add: geo)
  have "nominal_strikes 3060 (30 + 12) (25 / 2 + 5) (replicate 8 0) 13 [0..<8]
          = [(2, 95), (3, 40)]"
    by (simp add: upt_0_8 near_rod_def nominal_rods_def ROD_BOUNCE_def)
  with f(7) have "map (\<lambda>e. (rod e, velocity e)) (last_tick_strikes lens_run)
                    = [(2, 95), (3, 40)]"
    by simp
  from two_strikes [OF this f(8)]
  show "last_tick_strikes lens_run = [\<lparr>rod = 2, pitch = 64, velocity = 95\<rparr>,
                                 \<lparr>rod = 3, pitch = 67, velocity = 40\<rparr>]"
    by (simp add: example_notes_def)
  show la: "last lens_run = tilt_tick (- 15 / 97) (25 / 388) 3060" by (rule f(2))
  from f(9) show "\<exists>s'. loop (last lens_run) (fst (the (run power_on (butlast lens_run))))
            = Some (s', last_tick_strikes lens_run)"
    unfolding la by (auto simp: r)
  from f(3) show "physics_step (last lens_run) (handle_buttons (last lens_run)
       (fst (the (run power_on (butlast lens_run))))) = Some (last_tick_entry lens_run)"
    unfolding la by (simp add: r)
qed

lemma strike_pre:
  assumes deb: "80 < t0 + 60"
  shows "\<exists>s4. run power_on (approach t0 @ [tilt_tick (455 / 291) 0 (t0 + 60)])
            = Some (s4, [\<lparr>rod = 2, pitch = 64, velocity = 70\<rparr>])
        \<and> ball_at s4 32 0 (- 2) 0 ((replicate 8 0)[2 := t0 + 60])"
proof -
  from approach_run [of t0] obtain s3 where r3: "run power_on (approach t0) = Some (s3, [])"
    and a3: "ball_at s3 24 0 12 0 (replicate 8 0)" by blast
  have "\<exists>s'. run power_on (approach t0 @ [tilt_tick (455 / 291) 0 (t0 + 60)])
                 = Some (s', [] @ [\<lparr>rod = 2, pitch = 64, velocity = 70\<rparr>])
           \<and> ball_at s' 32 0 (- 2) 0 ((replicate 8 0)[2 := t0 + 60])"
    by (rule run_axis_strike [OF r3 a3, where vx' = 8]) (simp_all add: geo deb)
  then show ?thesis by simp
qed

lemma debounced_pre:
  "\<exists>sB. run power_on (butlast debounced_run)
            = Some (sB, [\<lparr>rod = 2, pitch = 64, velocity = 70\<rparr>])
        \<and> ball_at sB 30 (25 / 2) 2 (13 / 2) ((replicate 8 0)[2 := 3060])"
proof -
  have "(80 :: u32) < 3000 + 60" by simp
  from strike_pre [OF this] obtain s4 where
    r4: "run power_on (approach 3000 @ [tilt_tick (455 / 291) 0 (3000 + 60)])
            = Some (s4, [\<lparr>rod = 2, pitch = 64, velocity = 70\<rparr>])"
    and a4: "ball_at s4 32 0 (- 2) 0 ((replicate 8 0)[2 := 3000 + 60])" by blast
  have "\<exists>s'. run power_on ((approach 3000 @ [tilt_tick (455 / 291) 0 (3000 + 60)])
                  @ [tilt_tick (515 / 582) (250 / 97) 3080])
                 = Some (s', [\<lparr>rod = 2, pitch = 64, velocity = 70\<rparr>])
           \<and> ball_at s' 28 6 (- 4) 6 ((replicate 8 0)[2 := 3000 + 60])"
    by (rule run_quiet [OF r4 a4]) (simp_all add: geo)
  then obtain s5 where
    r5: "run power_on ((approach 3000 @ [tilt_tick (455 / 291) 0 (3000 + 60)])
                  @ [tilt_tick (515 / 582) (250 / 97) 3080])
                 = Some (s5, [\<lparr>rod = 2, pitch = 64, velocity = 70\<rparr>])"
    and a5: "ball_at s5 28 6 (- 4) 6 ((replicate 8 0)[2 := 3000 + 60])" by blast
  have "\<exists>s'. run power_on (((approach 3000 @ [tilt_tick (455 / 291) 0 (3000 + 60)])
                  @ [tilt_tick (515 / 582) (250 / 97) 3080])
                  @ [tilt_tick (- 245 / 97) (85 / 291) 3100])
                 = Some (s', [\<lparr>rod = 2, pitch = 64, velocity = 70\<rparr>])
           \<and> ball_at s' 30 (25 / 2) 2 (13 / 2) ((replicate 8 0)[2 := 3000 + 60])"
    by (rule run_quiet [OF r5 a5]) (simp_all add: geo)
  then obtain s6 where
    r6: "run power_on (((approach 3000 @ [tilt_tick (455 / 291) 0 (3000 + 60)])
                  @ [tilt_tick (515 / 582) (250 / 97) 3080])
                  @ [tilt_tick (- 245 / 97) (85 / 291) 3100])
                 = Some (s6, [\<lparr>rod = 2, pitch = 64, velocity = 70\<rparr>])"
    and a6: "ball_at s6 30 (25 / 2) 2 (13 / 2) ((replicate 8 0)[2 := 3000 + 60])" by blast
  have "butlast debounced_run = ((approach 3000 @ [tilt_tick (455 / 291) 0 (3000 + 60)])
                  @ [tilt_tick (515 / 582) (250 / 97) 3080])
                  @ [tilt_tick (- 245 / 97) (85 / 291) 3100]"
    by (simp add: debounced_run_def butlast_append)
  with r6 a6 show ?thesis by simp
qed

lemma debounced_facts:
  "ball_x (last_tick_entry debounced_run) = 42" "ball_y (last_tick_entry debounced_run) = 35 / 2"
  "ball_vx (last_tick_entry debounced_run) = 12" "ball_vy (last_tick_entry debounced_run) = 5"
  "speed_of (last_tick_entry debounced_run) = 13"
  "\<not> rod_hit 3120 (last_tick_entry debounced_run) 2"
  "rod_hit 3120 (last_tick_entry debounced_run) 3"
  "last_tick_strikes debounced_run = [\<lparr>rod = 3, pitch = 67, velocity = 95\<rparr>]"
  "snd (the (run power_on debounced_run))
     = [\<lparr>rod = 2, pitch = 64, velocity = 70\<rparr>, \<lparr>rod = 3, pitch = 67, velocity = 95\<rparr>]"
proof -
  from debounced_pre obtain sB where
    r: "run power_on (butlast debounced_run)
            = Some (sB, [\<lparr>rod = 2, pitch = 64, velocity = 70\<rparr>])"
    and at: "ball_at sB 30 (25 / 2) 2 (13 / 2) ((replicate 8 0)[2 := 3060])" by blast
  note lt = last_tick [OF r at, where ax = "- 2515 / 582" and ay = "- 435 / 776" and vx' = 12
      and vy' = 5 and sp = 13 and t = 3120 and R = debounced_run]
  have c: "(12 :: real) = (2 - (- 2515 / 582) * GRAVITY_SCALE * (2 / 100)) * FRICTION"
    "(5 :: real) = (13 / 2 + (- 435 / 776) * GRAVITY_SCALE * (2 / 100)) * FRICTION"
    "(12 :: real) * 12 + 5 * 5 \<le> 20 * 20"
    "(30 + 12 :: real) * (30 + 12) + (25 / 2 + 5) * (25 / 2 + 5) \<le> 51 * 51"
    "(13 :: real) * 13 = 12 * 12 + 5 * 5" "(0 :: real) \<le> 13"
    "\<forall>i<8. far_rod i (30 + 12) (25 / 2 + 5) \<or> near_rod i (30 + 12) (25 / 2 + 5)"
    "debounced_run = butlast debounced_run @ [tilt_tick (- 2515 / 582) (- 435 / 776) 3120]"
    by (simp_all add: geo debounced_run_def butlast_append)
  note f = lt [OF c]
  show "ball_x (last_tick_entry debounced_run) = 42"
    "ball_y (last_tick_entry debounced_run) = 35 / 2"
    "ball_vx (last_tick_entry debounced_run) = 12" "ball_vy (last_tick_entry debounced_run) = 5"
    using f(4) by (simp_all add: ball_at_def)
  show "speed_of (last_tick_entry debounced_run) = 13" by (rule f(5))
  show "\<not> rod_hit 3120 (last_tick_entry debounced_run) 2"
    "rod_hit 3120 (last_tick_entry debounced_run) 3"
    using f(6) by (simp_all add: geo)
  have "nominal_strikes 3120 (30 + 12) (25 / 2 + 5) ((replicate 8 0)[2 := 3060]) 13 [0..<8]
          = [(3, 95)]"
    by (simp add: upt_0_8 near_rod_def nominal_rods_def)
  with f(7) have "map (\<lambda>e. (rod e, velocity e)) (last_tick_strikes debounced_run) = [(3, 95)]"
    by simp
  from one_strike [OF this f(8)]
  show k: "last_tick_strikes debounced_run = [\<lparr>rod = 3, pitch = 67, velocity = 95\<rparr>]"
    by (simp add: example_notes_def)
  from f(9) show "snd (the (run power_on debounced_run))
     = [\<lparr>rod = 2, pitch = 64, velocity = 70\<rparr>, \<lparr>rod = 3, pitch = 67, velocity = 95\<rparr>]"
    by (auto simp: k)
qed

lemma wrap_pre:
  "\<exists>sB. run power_on (butlast wrap_run)
            = Some (sB, [\<lparr>rod = 2, pitch = 64, velocity = 70\<rparr>])
        \<and> ball_at sB 32 0 0 0 ((replicate 8 0)[2 := 4294967260])"
proof -
  have "(80 :: u32) < 4294967200 + 60" by simp
  from strike_pre [OF this] obtain s4 where
    r4: "run power_on (approach 4294967200 @ [tilt_tick (455 / 291) 0 (4294967200 + 60)])
            = Some (s4, [\<lparr>rod = 2, pitch = 64, velocity = 70\<rparr>])"
    and a4: "ball_at s4 32 0 (- 2) 0 ((replicate 8 0)[2 := 4294967200 + 60])" by blast
  have "\<exists>s'. run power_on ((approach 4294967200 @ [tilt_tick (455 / 291) 0 (4294967200 + 60)])
                  @ [tilt_tick (- 5 / 6) 0 4294967280])
                 = Some (s', [\<lparr>rod = 2, pitch = 64, velocity = 70\<rparr>])
           \<and> ball_at s' 32 0 0 0 ((replicate 8 0)[2 := 4294967200 + 60])"
    by (rule run_quiet [OF r4 a4]) (simp_all add: geo)
  then obtain s5 where
    r5: "run power_on ((approach 4294967200 @ [tilt_tick (455 / 291) 0 (4294967200 + 60)])
                  @ [tilt_tick (- 5 / 6) 0 4294967280])
                 = Some (s5, [\<lparr>rod = 2, pitch = 64, velocity = 70\<rparr>])"
    and a5: "ball_at s5 32 0 0 0 ((replicate 8 0)[2 := 4294967200 + 60])" by blast
  have "\<exists>s'. run power_on (((approach 4294967200 @ [tilt_tick (455 / 291) 0 (4294967200 + 60)])
                  @ [tilt_tick (- 5 / 6) 0 4294967280]) @ [tilt_tick 0 0 4])
                 = Some (s', [\<lparr>rod = 2, pitch = 64, velocity = 70\<rparr>])
           \<and> ball_at s' 32 0 0 0 ((replicate 8 0)[2 := 4294967200 + 60])"
    by (rule run_quiet [OF r5 a5]) (simp_all add: geo)
  then obtain s6 where
    r6: "run power_on (((approach 4294967200 @ [tilt_tick (455 / 291) 0 (4294967200 + 60)])
                  @ [tilt_tick (- 5 / 6) 0 4294967280]) @ [tilt_tick 0 0 4])
                 = Some (s6, [\<lparr>rod = 2, pitch = 64, velocity = 70\<rparr>])"
    and a6: "ball_at s6 32 0 0 0 ((replicate 8 0)[2 := 4294967200 + 60])" by blast
  have "\<exists>s'. run power_on ((((approach 4294967200 @ [tilt_tick (455 / 291) 0 (4294967200 + 60)])
                  @ [tilt_tick (- 5 / 6) 0 4294967280]) @ [tilt_tick 0 0 4]) @ [tilt_tick 0 0 24])
                 = Some (s', [\<lparr>rod = 2, pitch = 64, velocity = 70\<rparr>])
           \<and> ball_at s' 32 0 0 0 ((replicate 8 0)[2 := 4294967200 + 60])"
    by (rule run_quiet [OF r6 a6]) (simp_all add: geo)
  then obtain s7 where
    r7: "run power_on ((((approach 4294967200 @ [tilt_tick (455 / 291) 0 (4294967200 + 60)])
                  @ [tilt_tick (- 5 / 6) 0 4294967280]) @ [tilt_tick 0 0 4]) @ [tilt_tick 0 0 24])
                 = Some (s7, [\<lparr>rod = 2, pitch = 64, velocity = 70\<rparr>])"
    and a7: "ball_at s7 32 0 0 0 ((replicate 8 0)[2 := 4294967200 + 60])" by blast
  have "\<exists>s'. run power_on (((((approach 4294967200 @ [tilt_tick (455 / 291) 0 (4294967200 + 60)])
                  @ [tilt_tick (- 5 / 6) 0 4294967280]) @ [tilt_tick 0 0 4]) @ [tilt_tick 0 0 24])
                  @ [tilt_tick 0 0 44])
                 = Some (s', [\<lparr>rod = 2, pitch = 64, velocity = 70\<rparr>])
           \<and> ball_at s' 32 0 0 0 ((replicate 8 0)[2 := 4294967200 + 60])"
    by (rule run_quiet [OF r7 a7]) (simp_all add: geo)
  then obtain s8 where
    r8: "run power_on (((((approach 4294967200 @ [tilt_tick (455 / 291) 0 (4294967200 + 60)])
                  @ [tilt_tick (- 5 / 6) 0 4294967280]) @ [tilt_tick 0 0 4]) @ [tilt_tick 0 0 24])
                  @ [tilt_tick 0 0 44])
                 = Some (s8, [\<lparr>rod = 2, pitch = 64, velocity = 70\<rparr>])"
    and a8: "ball_at s8 32 0 0 0 ((replicate 8 0)[2 := 4294967200 + 60])" by blast
  have "butlast wrap_run
          = ((((approach 4294967200 @ [tilt_tick (455 / 291) 0 (4294967200 + 60)])
                  @ [tilt_tick (- 5 / 6) 0 4294967280]) @ [tilt_tick 0 0 4]) @ [tilt_tick 0 0 24])
                  @ [tilt_tick 0 0 44]"
    by (simp add: wrap_run_def butlast_append)
  with r8 a8 show ?thesis by simp
qed

lemma wrap_facts:
  "rod_last_hit (fst (the (run power_on (butlast wrap_run)))) ! 2 = 4294967260"
  "map rod (snd (the (run power_on (butlast wrap_run)))) = [2]"
  "last_tick_strikes wrap_run = [\<lparr>rod = 2, pitch = 64, velocity = 30\<rparr>]"
  "snd (the (run power_on wrap_run))
     = [\<lparr>rod = 2, pitch = 64, velocity = 70\<rparr>, \<lparr>rod = 2, pitch = 64, velocity = 30\<rparr>]"
  "rod_last_hit (fst (the (run power_on wrap_run))) ! 2 = 64"
proof -
  from wrap_pre obtain sB where
    r: "run power_on (butlast wrap_run)
            = Some (sB, [\<lparr>rod = 2, pitch = 64, velocity = 70\<rparr>])"
    and at: "ball_at sB 32 0 0 0 ((replicate 8 0)[2 := 4294967260])" by blast
  note lt = last_tick [OF r at, where ax = 0 and ay = 0 and vx' = 0
      and vy' = 0 and sp = 0 and t = 64 and R = wrap_run]
  have c: "(0 :: real) = (0 - 0 * GRAVITY_SCALE * (2 / 100)) * FRICTION"
    "(0 :: real) = (0 + 0 * GRAVITY_SCALE * (2 / 100)) * FRICTION"
    "(0 :: real) * 0 + 0 * 0 \<le> 20 * 20"
    "(32 + 0 :: real) * (32 + 0) + (0 + 0) * (0 + 0) \<le> 51 * 51"
    "(0 :: real) * 0 = 0 * 0 + 0 * 0" "(0 :: real) \<le> 0"
    "\<forall>i<8. far_rod i (32 + 0) (0 + 0) \<or> near_rod i (32 + 0) (0 + 0)"
    "wrap_run = butlast wrap_run @ [tilt_tick 0 0 64]"
    by (simp_all add: geo wrap_run_def butlast_append)
  note f = lt [OF c]
  show "rod_last_hit (fst (the (run power_on (butlast wrap_run)))) ! 2 = 4294967260"
    using at by (simp add: r ball_at_def)
  show "map rod (snd (the (run power_on (butlast wrap_run)))) = [2]" by (simp add: r)
  have "nominal_strikes 64 (32 + 0) (0 + 0) ((replicate 8 0)[2 := 4294967260]) 0 [0..<8]
          = [(2, 30)]"
    by (simp add: upt_0_8 near_rod_def nominal_rods_def)
  with f(7) have "map (\<lambda>e. (rod e, velocity e)) (last_tick_strikes wrap_run) = [(2, 30)]"
    by simp
  from one_strike [OF this f(8)]
  show k: "last_tick_strikes wrap_run = [\<lparr>rod = 2, pitch = 64, velocity = 30\<rparr>]"
    by (simp add: example_notes_def)
  from f(9) show "snd (the (run power_on wrap_run))
     = [\<lparr>rod = 2, pitch = 64, velocity = 70\<rparr>, \<lparr>rod = 2, pitch = 64, velocity = 30\<rparr>]"
    by (auto simp: k)
  from f(9) show "rod_last_hit (fst (the (run power_on wrap_run))) ! 2 = 64"
    by (auto simp: upt_0_8 geo)
qed

lemma rod_hit_debounce: "rod_hit t s i \<Longrightarrow> t - rod_last_hit s ! i > 80"
  by (simp add: rod_hit_def debounce_val)

lemma loop_glow_inv:
  assumes "length (rod_glow s) = 8" "\<forall>i<8. unat (rod_glow s ! i) \<le> 15"
    and "loop inp s = Some (s', ev)"
  shows "length (rod_glow s') = 8" "\<forall>i<8. unat (rod_glow s' ! i) \<le> 15"
    "\<forall>i<8. unat (rod_glow s' ! i) = (if i \<in> rod ` set ev then 15 else unat (rod_glow s ! i)) - 1"
proof -
  from assms(3) obtain p1 where
    r: "map rod ev = filter (rod_hit (now inp) p1) [0..<8]"
    and g: "\<And>i. i < 8 \<Longrightarrow> i < length (rod_glow s) \<Longrightarrow>
           unat (rod_glow s' ! i) = (if rod_hit (now inp) p1 i then 15 else unat (rod_glow s ! i)) - 1"
    and len: "length (rod_glow s') = length (rod_glow s)"
    by (rule loop_rod) blast
  show "length (rod_glow s') = 8" using len assms(1) by simp
  have "rod ` set ev = set (map rod ev)" by simp
  also have "\<dots> = {k. k < 8 \<and> rod_hit (now inp) p1 k}" unfolding r by auto
  finally have mem: "i \<in> rod ` set ev \<longleftrightarrow> rod_hit (now inp) p1 i" if "i < 8" for i
    using that by simp
  show f: "\<forall>i<8. unat (rod_glow s' ! i) = (if i \<in> rod ` set ev then 15 else unat (rod_glow s ! i)) - 1"
    using g assms(1) by (simp add: mem)
  show "\<forall>i<8. unat (rod_glow s' ! i) \<le> 15"
  proof (intro allI impI)
    fix i :: nat assume i: "i < 8"
    with f have "unat (rod_glow s' ! i) = (if i \<in> rod ` set ev then 15 else unat (rod_glow s ! i)) - 1"
      by blast
    with assms(2) i show "unat (rod_glow s' ! i) \<le> 15" by auto
  qed
qed

lemma run_glow_inv:
  assumes "length (rod_glow s) = 8" "\<forall>i<8. unat (rod_glow s ! i) \<le> 15"
  shows "\<exists>s' ev. run s inps = Some (s', ev) \<and> length (rod_glow s') = 8
           \<and> (\<forall>i<8. unat (rod_glow s' ! i) \<le> 15)"
  using assms
proof (induction inps arbitrary: s)
  case Nil
  then show ?case by simp
next
  case (Cons inp inps)
  obtain s1 ev1 where l: "loop inp s = Some (s1, ev1)" using loop_Some by blast
  from Cons.IH [OF loop_glow_inv(1,2) [OF Cons.prems l]] l
  show ?case by auto
qed

section \<open>The claims\<close>





text \<open>
  \<^bold>\<open>C3\<close> (as amended). Take two consecutive ticks whose \<^verbatim>\<open>millis()\<close> readings are less than
  80 apart (in 32-bit arithmetic), and a rod \<open>i\<close>. The two ticks together emit at most one
  strike for rod \<open>i\<close>. If the first tick emits a strike for the rod, then the time since the
  rod's recorded last hit exceeded 80, the rod's timestamp now is the \<^verbatim>\<open>millis()\<close> reading
  of the tick, and the timestamp has strictly increased provided the counter did not wrap
  around since the recorded last hit (old timestamp \<open>\<le>\<close> new reading). If the tick emits no
  strike for the rod, its timestamp is unchanged.
\<close>

theorem debounce_one_strike:
  assumes len: "length (rod_last_hit s) = 8" and i: "i < 8"
    and l1: "loop inp1 s = Some (s1, ev1)" and l2: "loop inp2 s1 = Some (s2, ev2)"
    and close: "now inp2 - now inp1 < 80"
  shows "length (filter (\<lambda>e. rod e = i) (ev1 @ ev2)) \<le> 1
       \<and> (if i \<in> rod ` set ev1
          then now inp1 - rod_last_hit s ! i > 80 \<and> rod_last_hit s1 ! i = now inp1
               \<and> (rod_last_hit s ! i \<le> now inp1 \<longrightarrow> rod_last_hit s ! i < rod_last_hit s1 ! i)
          else rod_last_hit s1 ! i = rod_last_hit s ! i)"
proof -
  from l1 obtain p1 where
    r1: "map rod ev1 = filter (rod_hit (now inp1) p1) [0..<8]"
    and f1: "rod_last_hit p1 = rod_last_hit s"
    and h1: "\<And>i. i < 8 \<Longrightarrow> i < length (rod_last_hit s) \<Longrightarrow>
           rod_last_hit s1 ! i = (if rod_hit (now inp1) p1 i then now inp1 else rod_last_hit s ! i)"
    and len1: "length (rod_last_hit s1) = length (rod_last_hit s)"
    by (rule loop_rod) blast
  from l2 obtain p2 where
    r2: "map rod ev2 = filter (rod_hit (now inp2) p2) [0..<8]"
    and f2: "rod_last_hit p2 = rod_last_hit s1"
    by (rule loop_rod) blast
  have c1: "length (filter (\<lambda>e. rod e = i) ev1) = (if rod_hit (now inp1) p1 i then 1 else 0)"
    using rod_events_count [OF r1, of i] i by simp
  have c2: "length (filter (\<lambda>e. rod e = i) ev2) = (if rod_hit (now inp2) p2 i then 1 else 0)"
    using rod_events_count [OF r2, of i] i by simp
  have mem: "i \<in> rod ` set ev1 \<longleftrightarrow> rod_hit (now inp1) p1 i"
  proof -
    have "rod ` set ev1 = set (map rod ev1)" by simp
    also have "\<dots> = {k. k < 8 \<and> rod_hit (now inp1) p1 k}" unfolding r1 by auto
    finally show ?thesis using i by simp
  qed
  have lh: "rod_last_hit s1 ! i = (if rod_hit (now inp1) p1 i then now inp1 else rod_last_hit s ! i)"
    using h1 [OF i] len i by simp
  have not_both: "\<not> (rod_hit (now inp1) p1 i \<and> rod_hit (now inp2) p2 i)"
  proof
    assume b: "rod_hit (now inp1) p1 i \<and> rod_hit (now inp2) p2 i"
    then have "rod_last_hit s1 ! i = now inp1" using lh by simp
    with rod_hit_debounce [of "now inp2" p2 i] b have "now inp2 - now inp1 > 80"
      by (simp add: f2)
    with close show False by simp
  qed
  have A: "length (filter (\<lambda>e. rod e = i) (ev1 @ ev2)) \<le> 1"
    using not_both by (auto simp: c1 c2)
  have B: "if i \<in> rod ` set ev1
          then now inp1 - rod_last_hit s ! i > 80 \<and> rod_last_hit s1 ! i = now inp1
               \<and> (rod_last_hit s ! i \<le> now inp1 \<longrightarrow> rod_last_hit s ! i < rod_last_hit s1 ! i)
          else rod_last_hit s1 ! i = rod_last_hit s ! i"
  proof (cases "rod_hit (now inp1) p1 i")
    case True
    from rod_hit_debounce [OF True] have d: "now inp1 - rod_last_hit s ! i > 80"
      by (simp add: f1)
    then have "rod_last_hit s ! i \<noteq> now inp1" by auto
    then have "rod_last_hit s ! i \<le> now inp1 \<longrightarrow> rod_last_hit s ! i < now inp1"
      by auto
    with True d lh show ?thesis by (simp add: mem)
  next
    case False
    with lh show ?thesis by (simp add: mem)
  qed
  from A B show ?thesis by blast
qed

theorem debounce_one_strike_witness:
  "length (rod_last_hit (fst (the (run power_on (approach 3000))))) = 8 \<and> (2::nat) < 8
   \<and> now (tilt_tick 0 0 3080) - now (tilt_tick 0 0 3060) < 80
   \<and> (\<exists>s1 ev1 s2 ev2.
          loop (tilt_tick 0 0 3060) (fst (the (run power_on (approach 3000)))) = Some (s1, ev1)
          \<and> loop (tilt_tick 0 0 3080) s1 = Some (s2, ev2)
          \<and> map rod ev1 = [2] \<and> rod_last_hit s1 ! 2 = 3060
          \<and> length (filter (\<lambda>e. rod e = 2) (ev1 @ ev2)) \<le> 1)"
proof -
  from glance_facts(4) obtain s3 s1 where r: "run power_on (approach 3000) = Some (s3, [])"
    and len: "length (rod_last_hit s3) = 8"
    and l1: "loop (tilt_tick 0 0 3060) s3 = Some (s1, last_tick_strikes glance_run)"
    and t1: "rod_last_hit s1 ! 2 = 3060"
    by blast
  have i: "(2::nat) < 8" by simp
  have close: "now (tilt_tick 0 0 3080) - now (tilt_tick 0 0 3060) < 80" by simp
  obtain s2 ev2 where l2: "loop (tilt_tick 0 0 3080) s1 = Some (s2, ev2)"
    using loop_Some by blast
  from debounce_one_strike [OF len i l1 l2 close]
  have "length (filter (\<lambda>e. rod e = 2) (last_tick_strikes glance_run @ ev2)) \<le> 1"
    by blast
  with len i close l1 l2 t1 show ?thesis
    by (intro conjI exI [of _ s1] exI [of _ "last_tick_strikes glance_run"]
        exI [of _ s2] exI [of _ ev2]) (simp_all add: r glance_facts(3))
qed

text \<open>
  Without the proviso the timestamp does not always increase. In \<open>wrap_run\<close> rod 2 is struck
  at \<^verbatim>\<open>millis() = 4294967260\<close> and, the ball resting next to it, again in the last tick at
  \<^verbatim>\<open>millis() = 64\<close>, 100 ms later and after the counter wrapped around. The second trigger
  sets the rod's timestamp to 64, which is smaller than 4294967260.
\<close>

theorem debounce_timestamp_wraps:
  "map rod (snd (the (run power_on (butlast wrap_run)))) = [2]
   \<and> rod_last_hit (fst (the (run power_on (butlast wrap_run)))) ! 2 = 4294967260
   \<and> map rod (last_tick_strikes wrap_run) = [2]
   \<and> map rod (snd (the (run power_on wrap_run))) = [2, 2]
   \<and> rod_last_hit (fst (the (run power_on wrap_run))) ! 2 = 64
   \<and> \<not> (rod_last_hit (fst (the (run power_on (butlast wrap_run)))) ! 2
          < rod_last_hit (fst (the (run power_on wrap_run))) ! 2)"
  by (simp add: wrap_facts)

text \<open>
  \<^bold>\<open>C4\<close> (as amended). In every tick, the rods that fire are exactly the rods \<open>i\<close> in
  \<open>0..7\<close> with \<open>rod_hit\<close> on the state after the physics step (distance below \<open>HIT_DIST\<close>
  and debounce expired), whatever earlier rods did in the tick; each fires once, in index
  order, with its own note-on carrying the pitch of its index in the active chime. The note
  velocity of a strike is computed from the ball's velocity at that point of the loop, as
  \<open>expected_strikes\<close> spells out: once an earlier rod of the tick has bounced the ball, it is
  computed from the rebound speed \<open>ROD_BOUNCE\<close>.
\<close>

theorem rods_fire_in_index_order:
  "\<exists>s1 s' ev. physics_step inp (handle_buttons inp s) = Some s1 \<and> loop inp s = Some (s', ev)
      \<and> map rod ev = filter (rod_hit (now inp) s1) [0..<8]
      \<and> (\<forall>e \<in> set ev. pitch e = chime_notes s ! nat (current_chime (handle_buttons inp s)) ! rod e)
      \<and> map (\<lambda>e. (rod e, velocity e)) ev = expected_strikes (now inp) s1 (speed_of s1) [0..<8]"
  by (rule loop_strikes [of inp s]) blast

theorem rods_fire_in_index_order_witness:
  "\<exists>s1 s' ev. physics_step (last lens_run) (handle_buttons (last lens_run)
                    (fst (the (run power_on (butlast lens_run))))) = Some s1
      \<and> loop (last lens_run) (fst (the (run power_on (butlast lens_run)))) = Some (s', ev)
      \<and> filter (rod_hit (now (last lens_run)) s1) [0..<8] = [2, 3]
      \<and> map rod ev = [2, 3] \<and> map pitch ev = [64, 67] \<and> map velocity ev = [95, 40]
      \<and> expected_strikes (now (last lens_run)) s1 (speed_of s1) [0..<8] = [(2, 95), (3, 40)]"
proof -
  from rods_fire_in_index_order [of "last lens_run" "fst (the (run power_on (butlast lens_run)))"]
  obtain s1 s' ev where p: "physics_step (last lens_run) (handle_buttons (last lens_run)
                    (fst (the (run power_on (butlast lens_run))))) = Some s1"
    and l: "loop (last lens_run) (fst (the (run power_on (butlast lens_run)))) = Some (s', ev)"
    and r: "map rod ev = filter (rod_hit (now (last lens_run)) s1) [0..<8]"
    and v: "map (\<lambda>e. (rod e, velocity e)) ev
              = expected_strikes (now (last lens_run)) s1 (speed_of s1) [0..<8]"
    by blast
  from lens_facts(10) l
  have ev: "ev = [\<lparr>rod = 2, pitch = 64, velocity = 95\<rparr>, \<lparr>rod = 3, pitch = 67, velocity = 40\<rparr>]"
    by (auto simp: lens_facts(8))
  from p l r v show ?thesis
    by (intro exI [of _ s1] exI [of _ s'] exI [of _ ev] conjI)
       (simp_all add: ev [symmetric], simp_all add: ev)
qed

text \<open>
  The outcome of a strike therefore does depend on whether an earlier rod fired in the same
  tick. The last ticks of \<open>lens_run\<close> and of \<open>debounced_run\<close> enter the rod loop with the ball
  at the same point \<open>(42, 17.5)\<close> with the same velocity \<open>(12, 5)\<close>, speed 13, within
  \<open>HIT_DIST\<close> of rods 2 and 3. In \<open>lens_run\<close> both fire: rod 2 sounds with velocity 95 and
  rod 3 with velocity 40. In \<open>debounced_run\<close> rod 2 was struck 60 ms before and is still
  debounced: rod 3 alone fires, with velocity 95.
\<close>

theorem later_strike_depends_on_earlier:
  "ball_x (last_tick_entry lens_run) = ball_x (last_tick_entry debounced_run)
   \<and> ball_y (last_tick_entry lens_run) = ball_y (last_tick_entry debounced_run)
   \<and> ball_vx (last_tick_entry lens_run) = ball_vx (last_tick_entry debounced_run)
   \<and> ball_vy (last_tick_entry lens_run) = ball_vy (last_tick_entry debounced_run)
   \<and> speed_of (last_tick_entry lens_run) = 13 \<and> speed_of (last_tick_entry debounced_run) = 13
   \<and> map rod (last_tick_strikes lens_run) = [2, 3]
   \<and> map velocity (last_tick_strikes lens_run) = [95, 40]
   \<and> map rod (last_tick_strikes debounced_run) = [3]
   \<and> map velocity (last_tick_strikes debounced_run) = [95]"
  by (simp add: lens_facts(1-5,8) debounced_facts(1-5,8))

text \<open>
  \<^bold>\<open>C5.\<close> For every variant index \<open>c\<close> in \<open>0..3\<close>, selecting the next chime four times
  in a row returns to \<open>c\<close>, and so does selecting the previous chime four times. Next is
  \<open>(c + 1) mod 4\<close>, previous is \<open>(c + 3) mod 4\<close>, both stay in \<open>0..3\<close> and undo each
  other. A tick in which button C was pressed ends with the next variant, a tick in which
  button A was pressed ends with the previous one.
\<close>

theorem chime_selection_round_trip:
  assumes "0 \<le> c" "c \<le> 3"
  shows "next_chime (next_chime (next_chime (next_chime c))) = c
       \<and> prev_chime (prev_chime (prev_chime (prev_chime c))) = c
       \<and> next_chime c = (c + 1) mod 4 \<and> prev_chime c = (c + 3) mod 4
       \<and> 0 \<le> next_chime c \<and> next_chime c \<le> 3 \<and> 0 \<le> prev_chime c \<and> prev_chime c \<le> 3
       \<and> next_chime (prev_chime c) = c \<and> prev_chime (next_chime c) = c
       \<and> (\<exists>s' ev. loop \<lparr>btnA = False, btnB = b, btnC = True, cal_sample = cs, accel = a, now = t\<rparr>
                      (s\<lparr>current_chime := c\<rparr>) = Some (s', ev)
              \<and> current_chime s' = next_chime c)
       \<and> (\<exists>s' ev. loop \<lparr>btnA = True, btnB = b, btnC = False, cal_sample = cs, accel = a, now = t\<rparr>
                      (s\<lparr>current_chime := c\<rparr>) = Some (s', ev)
              \<and> current_chime s' = prev_chime c)"
proof -
  have A: "next_chime (next_chime (next_chime (next_chime c))) = c
       \<and> prev_chime (prev_chime (prev_chime (prev_chime c))) = c
       \<and> next_chime c = (c + 1) mod 4 \<and> prev_chime c = (c + 3) mod 4
       \<and> 0 \<le> next_chime c \<and> next_chime c \<le> 3 \<and> 0 \<le> prev_chime c \<and> prev_chime c \<le> 3
       \<and> next_chime (prev_chime c) = c \<and> prev_chime (next_chime c) = c"
    using chime_cases [OF assms]
    by (elim disjE) (simp_all add: next_chime_def prev_chime_def smod_int_alt_def)
  let ?n = "\<lparr>btnA = False, btnB = b, btnC = True, cal_sample = cs, accel = a, now = t\<rparr>"
  let ?p = "\<lparr>btnA = True, btnB = b, btnC = False, cal_sample = cs, accel = a, now = t\<rparr>"
  obtain sn evn where ln: "loop ?n (s\<lparr>current_chime := c\<rparr>) = Some (sn, evn)"
    using loop_Some by blast
  have "current_chime sn = next_chime c"
    using loop_current_chime [OF ln] by (simp add: handle_buttons_next)
  with ln have B: "\<exists>s' ev. loop ?n (s\<lparr>current_chime := c\<rparr>) = Some (s', ev)
              \<and> current_chime s' = next_chime c"
    by blast
  obtain sp evp where lp: "loop ?p (s\<lparr>current_chime := c\<rparr>) = Some (sp, evp)"
    using loop_Some by blast
  have "current_chime sp = prev_chime c"
    using loop_current_chime [OF lp] by (simp add: handle_buttons_prev)
  with lp have C: "\<exists>s' ev. loop ?p (s\<lparr>current_chime := c\<rparr>) = Some (s', ev)
              \<and> current_chime s' = prev_chime c"
    by blast
  from A B C show ?thesis by blast
qed

theorem chime_selection_round_trip_witness:
  "(0::int) \<le> 3 \<and> (3::int) \<le> 3
   \<and> next_chime (next_chime (next_chime (next_chime 3))) = 3
   \<and> prev_chime (prev_chime (prev_chime (prev_chime 3))) = 3
   \<and> next_chime 3 = 0 \<and> prev_chime 3 = 2"
proof -
  have h: "(0::int) \<le> 3" "(3::int) \<le> 3" by simp_all
  note r = chime_selection_round_trip [OF h]
  from r have a: "next_chime (next_chime (next_chime (next_chime 3))) = 3" by blast
  from r have b: "prev_chime (prev_chime (prev_chime (prev_chime 3))) = 3" by blast
  from r have "next_chime 3 = (3 + 1) mod 4" by blast
  then have c: "next_chime 3 = 0" by simp
  from r have "prev_chime 3 = (3 + 3) mod 4" by blast
  then have d: "prev_chime 3 = 2" by simp
  from h a b c d show ?thesis by blast
qed

text \<open>
  \<^bold>\<open>C6.\<close> The speed clamp returns a state for every velocity vector. Its speed is the
  minimum of the speed before and \<open>MAX_SPEED\<close>, hence at most 20, and exactly 20 when the
  speed before was larger. The clamped vector is the old one scaled by the ratio of the two
  speeds, which is positive when the clamp applies, so the direction is kept. Floats are
  exact reals here, so the bound holds without a tolerance.
\<close>

theorem speed_clamp_bound:
  "\<exists>s'. clamp_speed s = Some s'
        \<and> speed_of s' = min (speed_of s) MAX_SPEED
        \<and> speed_of s' \<le> 20
        \<and> ball_vx s' * speed_of s = ball_vx s * speed_of s'
        \<and> ball_vy s' * speed_of s = ball_vy s * speed_of s'"
proof (cases "speed_of s > MAX_SPEED")
  case True
  then have pos: "0 < speed_of s" by (simp add: MAX_SPEED_def)
  define s' where "s' = s\<lparr>ball_vx := ball_vx s / speed_of s * MAX_SPEED,
                  ball_vy := ball_vy s / speed_of s * MAX_SPEED\<rparr>"
  have c: "clamp_speed s = Some s'" using True by (simp add: clamp_speed_eq s'_def)
  have "speed_of s' = \<bar>MAX_SPEED\<bar>"
    unfolding s'_def using norm_scaled [OF _ pos, of "ball_vx s" "ball_vy s" MAX_SPEED]
    by (simp add: speed_of_def)
  then have sp: "speed_of s' = MAX_SPEED" by (simp add: MAX_SPEED_def)
  have "ball_vx s' * speed_of s = ball_vx s * speed_of s'"
    "ball_vy s' * speed_of s = ball_vy s * speed_of s'"
    using pos unfolding sp by (simp_all add: s'_def)
  with c sp True show ?thesis by (simp add: MAX_SPEED_def)
next
  case False
  then show ?thesis by (simp add: clamp_speed_eq MAX_SPEED_def)
qed

text \<open>
  \<^bold>\<open>C7.\<close> Start from the state that \<^verbatim>\<open>setup()\<close> leaves (ball at rest at the centre) and
  run 100 ticks in each of which the accelerometer reads the calibration offset, so that the
  calibrated tilt is \<open>(0, 0)\<close> (a calibration in such a tick must read the same offset).
  Then the run returns, no \<^verbatim>\<open>setNoteOn\<close> call is made in any of the ticks, the position
  and the velocity of the ball are still \<open>(0, 0)\<close>, and every rod is at distance
  \<open>ROD_ORBIT = 55\<close> from the ball, which is at least \<open>HIT_DIST = 24\<close>.
\<close>

theorem rest_at_center_no_strike:
  assumes "length inps = 100"
    and "\<forall>inp \<in> set inps. accel inp = cal \<and> (btnB inp \<longrightarrow> cal_sample inp = cal)"
  shows "\<exists>s'. run (setup_init notes cal) inps = Some (s', [])
           \<and> ball_x s' = 0 \<and> ball_y s' = 0 \<and> ball_vx s' = 0 \<and> ball_vy s' = 0
           \<and> (\<forall>i<8. rod_dist s' i = real_of_int ROD_ORBIT \<and> HIT_DIST \<le> rod_dist s' i)"
proof -
  have "\<exists>s'. run (setup_init notes cal) inps = Some (s', []) \<and>
           ball_x s' = 0 \<and> ball_y s' = 0 \<and> ball_vx s' = 0 \<and> ball_vy s' = 0 \<and>
           rod_fx s' = rod_fx (setup_init notes cal) \<and> rod_fy s' = rod_fy (setup_init notes cal)"
    by (rule rest_run [OF _ _ _ _ _ _ _ _ assms(2)]) (simp_all add: setup_init_def)
  then obtain s' where r: "run (setup_init notes cal) inps = Some (s', [])"
    and b: "ball_x s' = 0" "ball_y s' = 0" "ball_vx s' = 0" "ball_vy s' = 0"
    and g: "rod_fx s' = rod_fx (setup_init notes cal)" "rod_fy s' = rod_fy (setup_init notes cal)"
    by blast
  have "\<forall>i<8. rod_dist s' i = real_of_int ROD_ORBIT \<and> HIT_DIST \<le> rod_dist s' i"
    using rod_dist_from_center [OF b(1,2) _ g] by (simp add: ROD_ORBIT_def HIT_DIST_def)
  with r b show ?thesis by blast
qed

theorem rest_at_center_no_strike_witness:
  "length (map (\<lambda>k. idle_tick (word_of_nat (3000 + 20 * k))) [0..<100]) = 100
   \<and> (\<exists>s'. run (setup_init example_notes (0, 0))
              (map (\<lambda>k. idle_tick (word_of_nat (3000 + 20 * k))) [0..<100]) = Some (s', [])
          \<and> ball_x s' = 0 \<and> ball_y s' = 0 \<and> ball_vx s' = 0 \<and> ball_vy s' = 0
          \<and> rod_dist s' 0 = 55 \<and> rod_dist s' 7 = 55)"
proof -
  let ?inps = "map (\<lambda>k. idle_tick (word_of_nat (3000 + 20 * k))) [0..<100]"
  have h1: "length ?inps = 100" by simp
  have h2: "\<forall>inp \<in> set ?inps. accel inp = (0, 0) \<and> (btnB inp \<longrightarrow> cal_sample inp = (0, 0))"
    by (simp add: idle_tick_def)
  from rest_at_center_no_strike [OF h1 h2, of example_notes]
  obtain s' where "run (setup_init example_notes (0, 0)) ?inps = Some (s', [])"
    "ball_x s' = 0" "ball_y s' = 0" "ball_vx s' = 0" "ball_vy s' = 0"
    "\<forall>i<8. rod_dist s' i = real_of_int ROD_ORBIT \<and> HIT_DIST \<le> rod_dist s' i"
    by blast
  then show ?thesis
    using h1 by (intro conjI exI [of _ s']) (simp_all add: ROD_ORBIT_def)
qed

text \<open>
  \<^bold>\<open>C8.\<close> The rod response never divides by zero: for every rod-to-ball vector, every
  distance argument and every state it returns a state. Under the guard \<open>d > 0.1\<close> both
  divisions have the non-zero divisor \<open>d\<close> and the velocity becomes the normalised vector
  times \<open>ROD_BOUNCE\<close>; when the guard fails, at distance 0 in particular, the state is
  returned unchanged, so the velocity overwrite is skipped. With \<open>d\<close> the length of the
  vector, as in the rod loop, the speed after the response is \<open>ROD_BOUNCE\<close> under the guard
  and the old speed otherwise. A whole tick always returns a state.
\<close>

theorem rod_bounce_guarded:
  "bounce_off_rod dx dy d s =
     Some (if d > 1 / 10
           then s\<lparr>ball_vx := dx / d * ROD_BOUNCE, ball_vy := dy / d * ROD_BOUNCE\<rparr>
           else s)
   \<and> (if d > 1 / 10 then fdiv dx d = Some (dx / d) \<and> fdiv dy d = Some (dy / d) \<and> d \<noteq> 0
       else bounce_off_rod dx dy d s = Some s)
   \<and> bounce_off_rod dx dy 0 s = Some s
   \<and> (\<exists>s'. bounce_off_rod dx dy (sqrt (dx * dx + dy * dy)) s = Some s'
         \<and> speed_of s' = (if sqrt (dx * dx + dy * dy) > 1 / 10 then ROD_BOUNCE else speed_of s))
   \<and> (\<exists>s' ev. loop inp s = Some (s', ev))"
proof -
  have A: "bounce_off_rod dx dy d s =
     Some (if d > 1 / 10
           then s\<lparr>ball_vx := dx / d * ROD_BOUNCE, ball_vy := dy / d * ROD_BOUNCE\<rparr>
           else s)"
    by (rule bounce_off_rod_eq)
  have B: "if d > 1 / 10 then fdiv dx d = Some (dx / d) \<and> fdiv dy d = Some (dy / d) \<and> d \<noteq> 0
       else bounce_off_rod dx dy d s = Some s"
    by (auto simp: fdiv_def bounce_off_rod_eq)
  have C: "bounce_off_rod dx dy 0 s = Some s"
    by (simp add: bounce_off_rod_eq)
  have D: "\<exists>s'. bounce_off_rod dx dy (sqrt (dx * dx + dy * dy)) s = Some s'
         \<and> speed_of s' = (if sqrt (dx * dx + dy * dy) > 1 / 10 then ROD_BOUNCE else speed_of s)"
  proof (cases "sqrt (dx * dx + dy * dy) > 1 / 10")
    case True
    then have "0 < sqrt (dx * dx + dy * dy)" by linarith
    then have pos: "0 < sqrt (dx * dx + dy * dy)" .
    have "sqrt ((dx / sqrt (dx * dx + dy * dy) * ROD_BOUNCE) * (dx / sqrt (dx * dx + dy * dy) * ROD_BOUNCE)
              + (dy / sqrt (dx * dx + dy * dy) * ROD_BOUNCE) * (dy / sqrt (dx * dx + dy * dy) * ROD_BOUNCE))
          = \<bar>ROD_BOUNCE\<bar>"
      by (rule norm_scaled [OF refl pos])
    with True show ?thesis
      by (simp add: bounce_off_rod_eq speed_of_def ROD_BOUNCE_def)
  next
    case False
    then show ?thesis by (simp add: bounce_off_rod_eq)
  qed
  from A B C D loop_Some [of inp s] show ?thesis by blast
qed

text \<open>
  \<^bold>\<open>C9.\<close> In every tick, every emitted note-on has a velocity between 30 and 127, and it
  is the note velocity of some speed between 0 and \<open>MAX_SPEED\<close>. A strike at speed 0 has
  velocity 30. For every speed between 0 and \<open>MAX_SPEED\<close> the float \<open>30 + speed * 5\<close> lies
  between 30 and 130, so its conversion to \<^verbatim>\<open>uint8_t\<close> is defined and yields its integer
  part without wrapping around. The tick returns a state, so no conversion in it is out of
  range.
\<close>

theorem strike_velocity_at_least_30:
  "(\<exists>s' ev. loop inp s = Some (s', ev)
       \<and> (\<forall>e \<in> set ev. 30 \<le> unat (velocity e) \<and> unat (velocity e) \<le> 127
             \<and> (\<exists>hs. 0 \<le> hs \<and> hs \<le> MAX_SPEED \<and> note_velocity hs = Some (velocity e))))
   \<and> note_velocity 0 = Some 30
   \<and> (\<forall>hs. 0 \<le> hs \<and> hs \<le> MAX_SPEED \<longrightarrow>
          30 \<le> 30 + hs * 5 \<and> 30 + hs * 5 \<le> 130
          \<and> (\<exists>v. float_to_u8 (30 + hs * 5) = Some v \<and> int (unat v) = \<lfloor>30 + hs * 5\<rfloor>
                \<and> 30 \<le> unat v \<and> unat v \<le> 130))"
proof -
  obtain s1 s2 ev where p: "physics_step inp (handle_buttons inp s) = Some s1"
    and sp: "speed_of s1 \<le> MAX_SPEED"
    and r: "check_rods (now inp) s1 = Some (s2, ev)"
    and l: "loop inp s = Some (drawUpdate s2, ev)"
    by (rule loop_decomp)
  from r have r': "rod_loop (now inp) [0..<8] s1 = Some (s2, ev)"
    by (simp add: check_rods_def)
  have A: "\<exists>s' ev. loop inp s = Some (s', ev)
       \<and> (\<forall>e \<in> set ev. 30 \<le> unat (velocity e) \<and> unat (velocity e) \<le> 127
             \<and> (\<exists>hs. 0 \<le> hs \<and> hs \<le> MAX_SPEED \<and> note_velocity hs = Some (velocity e)))"
    using l rod_loop_velocity [OF sp r'] rod_loop_velocity_form [OF sp r'] by auto
  have B: "note_velocity 0 = Some 30"
    using note_velocity_eq [of 0] by simp
  have C: "30 \<le> 30 + hs * 5 \<and> 30 + hs * 5 \<le> 130
          \<and> (\<exists>v. float_to_u8 (30 + hs * 5) = Some v \<and> int (unat v) = \<lfloor>30 + hs * 5\<rfloor>
                \<and> 30 \<le> unat v \<and> unat v \<le> 130)"
    if "0 \<le> hs \<and> hs \<le> MAX_SPEED" for hs
  proof -
    from that have b: "30 \<le> 30 + hs * 5" "30 + hs * 5 \<le> 130"
      by (simp_all add: MAX_SPEED_def)
    then have "0 \<le> 30 + hs * 5" "30 + hs * 5 < 256" by simp_all
    from float_to_u8_in_range [OF this]
    obtain v where v: "float_to_u8 (30 + hs * 5) = Some v" "int (unat v) = \<lfloor>30 + hs * 5\<rfloor>"
      by blast
    from b have "30 \<le> \<lfloor>30 + hs * 5\<rfloor>" "\<lfloor>30 + hs * 5\<rfloor> \<le> 130"
      by (simp_all add: le_floor_iff floor_le_iff)
    with v(2) have "30 \<le> unat v" "unat v \<le> 130" by linarith+
    with b v show ?thesis by blast
  qed
  from A B C show ?thesis by blast
qed

theorem strike_velocity_at_least_30_witness:
  "\<exists>s' ev e. loop (tilt_tick 0 0 3060) (fst (the (run power_on (approach 3000)))) = Some (s', ev)
       \<and> e \<in> set ev \<and> velocity e = 88 \<and> 30 \<le> unat (velocity e) \<and> unat (velocity e) \<le> 127"
proof -
  from strike_velocity_at_least_30
         [of "tilt_tick 0 0 3060" "fst (the (run power_on (approach 3000)))"]
  obtain s' ev where
    l: "loop (tilt_tick 0 0 3060) (fst (the (run power_on (approach 3000)))) = Some (s', ev)"
    and b: "\<forall>e \<in> set ev. 30 \<le> unat (velocity e) \<and> unat (velocity e) \<le> 127"
    by blast
  from glance_facts(4) l
  have ev: "ev = [\<lparr>rod = 2, pitch = 64, velocity = 88\<rparr>]"
    by (auto simp: glance_facts(3))
  with l b show ?thesis
    by (intro exI [of _ s'] exI [of _ ev] exI [of _ "\<lparr>rod = 2, pitch = 64, velocity = 88\<rparr>"]) simp
qed

text \<open>
  \<^bold>\<open>C10.\<close> The glow counters are all 0 after \<^verbatim>\<open>setup()\<close>. From every state with eight
  glow counters, each at most 15, every run of ticks returns a state with eight glow
  counters, each at most 15. In every further tick the counter of rod \<open>i\<close> becomes 15 minus
  1 if the rod is struck in the tick, and otherwise its old value minus 1, stopping at 0
  (truncated subtraction on the unsigned value): it is never decremented below 0 and never
  exceeds 15.
\<close>

theorem rod_glow_range:
  assumes "length (rod_glow s) = 8" "\<forall>i<8. unat (rod_glow s ! i) \<le> 15"
  shows "rod_glow (setup_init notes cal) = replicate 8 0
       \<and> (\<exists>s' ev. run s inps = Some (s', ev) \<and> length (rod_glow s') = 8
             \<and> (\<forall>i<8. unat (rod_glow s' ! i) \<le> 15
                   \<and> (\<forall>inp. \<exists>s'' ev'. loop inp s' = Some (s'', ev')
                          \<and> unat (rod_glow s'' ! i)
                              = (if i \<in> rod ` set ev' then 15 else unat (rod_glow s' ! i)) - 1
                          \<and> unat (rod_glow s'' ! i) \<le> 15)))"
proof -
  from run_glow_inv [OF assms, of inps]
  obtain s' ev where r: "run s inps = Some (s', ev)" and len: "length (rod_glow s') = 8"
    and inv: "\<forall>i<8. unat (rod_glow s' ! i) \<le> 15"
    by blast
  have step: "\<exists>s'' ev'. loop inp s' = Some (s'', ev')
                \<and> unat (rod_glow s'' ! i) = (if i \<in> rod ` set ev' then 15 else unat (rod_glow s' ! i)) - 1
                \<and> unat (rod_glow s'' ! i) \<le> 15"
    if "i < 8" for i inp
  proof -
    obtain s'' ev' where l: "loop inp s' = Some (s'', ev')" using loop_Some by blast
    from loop_glow_inv(2,3) [OF len inv l] that l show ?thesis by blast
  qed
  have "rod_glow (setup_init notes cal) = replicate 8 0" by (simp add: setup_init_def)
  with r len inv step show ?thesis by blast
qed

theorem rod_glow_range_witness:
  "length (rod_glow power_on) = 8 \<and> unat (rod_glow power_on ! 2) \<le> 15
   \<and> (\<exists>s' ev s'' ev'. run power_on (approach 3000) = Some (s', ev)
          \<and> loop (tilt_tick 0 0 3060) s' = Some (s'', ev')
          \<and> map rod ev' = [2] \<and> unat (rod_glow s' ! 2) = 0
          \<and> unat (rod_glow s'' ! 2) = 14 \<and> unat (rod_glow s'' ! 3) = 0)"
proof -
  have len: "length (rod_glow power_on) = 8" by (simp add: power_on_def setup_init_def)
  have inv: "\<forall>i<8. unat (rod_glow power_on ! i) \<le> 15"
    by (simp add: power_on_def setup_init_def)
  from glance_facts(4) obtain s3 s1 where r: "run power_on (approach 3000) = Some (s3, [])"
    and g3: "\<forall>i<8. unat (rod_glow s3 ! i) = 0"
    and l1: "loop (tilt_tick 0 0 3060) s3 = Some (s1, last_tick_strikes glance_run)"
    by blast
  from rod_glow_range [OF len inv, of _ _ "approach 3000"] r
  have step: "\<forall>i<8. \<forall>inp. \<exists>s'' ev'. loop inp s3 = Some (s'', ev')
                \<and> unat (rod_glow s'' ! i)
                     = (if i \<in> rod ` set ev' then 15 else unat (rod_glow s3 ! i)) - 1
                \<and> unat (rod_glow s'' ! i) \<le> 15"
    by simp
  from step [rule_format, of 2 "tilt_tick 0 0 3060"] l1
  have g2: "unat (rod_glow s1 ! 2) = 14" by (auto simp: glance_facts(3))
  from step [rule_format, of 3 "tilt_tick 0 0 3060"] l1 g3
  have g3': "unat (rod_glow s1 ! 3) = 0" by (auto simp: glance_facts(3))
  from g3 have g0: "unat (rod_glow s3 ! 2) = 0" by simp
  from len inv r l1 g0 g2 g3' show ?thesis
    by (intro conjI exI [of _ s3] exI [of _ "[]"] exI [of _ s1]
        exI [of _ "last_tick_strikes glance_run"]) (simp_all add: glance_facts(3))
qed

end
